theory Spec2Isabelle
  imports Complex_Main "HOL-Library.AList" "HOL-Library.Product_Lexorder"
begin

section \<open>Python values, dictionaries and exceptions\<close>

text \<open>
  The pipeline of \<^verbatim>\<open>tmdb_etl_lambda.py\<close> works on the values that \<^verbatim>\<open>json.loads\<close>
  produces and on dictionaries built from them. A dictionary is an association list in
  insertion order; lookups read the first binding of a key, as \<^const>\<open>map_of\<close> does.

  A float is an IEEE double: \<open>Fin r\<close> is the finite double of value \<open>r\<close>, and the two
  infinities and NaN are values of their own (\<^verbatim>\<open>json.loads\<close> yields them for
  \<^verbatim>\<open>Infinity\<close>, \<^verbatim>\<open>1e999\<close>, \<^verbatim>\<open>-Infinity\<close> and \<^verbatim>\<open>NaN\<close>). The two zeros, which \<^verbatim>\<open>==\<close>
  does not tell apart, are the one value \<open>Fin 0\<close>.
\<close>

datatype pyfloat = Fin rat | PosInf | NegInf | NaN

datatype pyval =
    PNone
  | PBool bool
  | PInt int
  | PFloat pyfloat
  | PStr string
  | PList "pyval list"
  | PDict "(string \<times> pyval) list"

type_synonym pydict = "(string \<times> pyval) list"

text \<open>The exceptions of the model; \<open>ApiError\<close> is whatever \<^verbatim>\<open>make_api_request\<close> raises.\<close>

datatype error =
    KeyError
  | TypeError
  | ValueError
  | AttributeError
  | OverflowError
  | ZeroDivisionError
  | ApiError
  | StatisticsError
  | NoMovies
  | UploadError

text \<open>
  Keys of Python sets and dictionaries: numbers are equal as keys when they are equal as
  numbers (\<^verbatim>\<open>True == 1 == 1.0\<close>); lists and dictionaries are unhashable. The NaN of
  \<^verbatim>\<open>json.loads\<close> is one object, which a dictionary finds again by identity.
\<close>

datatype pykey = KNone | KNum rat | KInf | KNegInf | KNaN | KStr string

fun key_of :: "pyval \<Rightarrow> pykey option" where
  "key_of PNone = Some KNone"
| "key_of (PBool b) = Some (KNum (if b then 1 else 0))"
| "key_of (PInt i) = Some (KNum (of_int i))"
| "key_of (PFloat (Fin r)) = Some (KNum r)"
| "key_of (PFloat PosInf) = Some KInf"
| "key_of (PFloat NegInf) = Some KNegInf"
| "key_of (PFloat NaN) = Some KNaN"
| "key_of (PStr s) = Some (KStr s)"
| "key_of (PList xs) = None"
| "key_of (PDict kvs) = None"

text \<open>Truthiness, as \<^verbatim>\<open>if v:\<close> tests it.\<close>

fun truthy :: "pyval \<Rightarrow> bool" where
  "truthy PNone = False"
| "truthy (PBool b) = b"
| "truthy (PInt i) = (i \<noteq> 0)"
| "truthy (PFloat f) = (f \<noteq> Fin 0)"
| "truthy (PStr s) = (s \<noteq> [])"
| "truthy (PList xs) = (xs \<noteq> [])"
| "truthy (PDict kvs) = (kvs \<noteq> [])"

text \<open>\<^verbatim>\<open>d.get(k, default)\<close> and \<^verbatim>\<open>d[k]\<close> on a dictionary.\<close>

definition dget :: "pydict \<Rightarrow> string \<Rightarrow> pyval \<Rightarrow> pyval" where
  "dget d k dflt = (case map_of d k of None \<Rightarrow> dflt | Some v \<Rightarrow> v)"

definition ditem :: "pydict \<Rightarrow> string \<Rightarrow> error + pyval" where
  "ditem d k = (case map_of d k of None \<Rightarrow> Inl KeyError | Some v \<Rightarrow> Inr v)"

text \<open>\<^verbatim>\<open>d.setdefault(k, v)\<close>: a key that is present keeps its value, also \<^verbatim>\<open>None\<close>.\<close>

definition setdefault :: "string \<Rightarrow> pyval \<Rightarrow> pydict \<Rightarrow> pydict" where
  "setdefault k v d = (case map_of d k of None \<Rightarrow> AList.update k v d | Some w \<Rightarrow> d)"

text \<open>\<^verbatim>\<open>{**a, **b}\<close>: the items of \<open>a\<close>, then each item of \<open>b\<close> stored in turn.\<close>

definition dict_merge :: "pydict \<Rightarrow> pydict \<Rightarrow> pydict" where
  "dict_merge a b = fold (\<lambda>(k, v). AList.update k v) b a"

text \<open>Iterating a value with \<^verbatim>\<open>for x in v\<close>; \<open>None\<close> is the \<^verbatim>\<open>TypeError\<close>.\<close>

fun py_iter :: "pyval \<Rightarrow> pyval list option" where
  "py_iter (PList xs) = Some xs"
| "py_iter (PDict kvs) = Some (map (\<lambda>kv. PStr (fst kv)) kvs)"
| "py_iter (PStr s) = Some (map (\<lambda>c. PStr [c]) s)"
| "py_iter v = None"

text \<open>\<^verbatim>\<open>xs[:k]\<close>: a negative bound counts from the end.\<close>

definition slice_to :: "int \<Rightarrow> 'a list \<Rightarrow> 'a list" where
  "slice_to k xs = (if 0 \<le> k then take (nat k) xs else take (nat (int (length xs) + k)) xs)"

fun mapM :: "('a \<Rightarrow> error + 'b) \<Rightarrow> 'a list \<Rightarrow> error + 'b list" where
  "mapM f [] = Inr []"
| "mapM f (x # xs) =
     (case f x of Inl e \<Rightarrow> Inl e
      | Inr y \<Rightarrow> (case mapM f xs of Inl e \<Rightarrow> Inl e | Inr ys \<Rightarrow> Inr (y # ys)))"

section \<open>Floating-point arithmetic\<close>

text \<open>
  Python's floats are IEEE doubles: 53 bits of precision, exponents from \<open>-1022\<close> to
  \<open>1023\<close>, results rounded to the nearest double, ties to the even one.
\<close>

text \<open>The number of bits of a positive integer.\<close>

function bit_length :: "int \<Rightarrow> int" where
  "bit_length n = (if n \<le> 0 then 0 else 1 + bit_length (n div 2))"
  by pat_completeness auto
termination
  by (relation "measure nat") auto

declare bit_length.simps [simp del]

text \<open>The quotient \<open>n / d\<close> of two positive integers, rounded to the nearest integer, ties to even.\<close>

definition round_div :: "int \<Rightarrow> int \<Rightarrow> int" where
  "round_div n d =
     (let f = n div d; r = 2 * (n mod d)
      in if r < d then f else if d < r then f + 1 else if even f then f else f + 1)"

text \<open>The exponent \<open>k\<close> with \<open>2^k \<le> p / q < 2^(k+1)\<close>, for positive \<open>p\<close> and \<open>q\<close>.\<close>

definition exponent_of :: "int \<Rightarrow> int \<Rightarrow> int" where
  "exponent_of p q =
     (let k = bit_length p - bit_length q
      in if (if 0 \<le> k then p < q * 2 ^ nat k else p * 2 ^ nat (- k) < q) then k - 1 else k)"

text \<open>
  The double nearest to a rational: the value is a multiple \<open>m * 2^e\<close> of the spacing of
  the doubles at its size (\<open>2^-1074\<close> for the subnormal ones), and a value that rounds
  to \<open>2^1024\<close> or more is an infinity.
\<close>

definition round_double :: "rat \<Rightarrow> pyfloat" where
  "round_double x =
     (if x = 0 then Fin 0
      else
        let (p, q) = quotient_of \<bar>x\<bar>;
            k = max (exponent_of p q) (- 1022);
            e = k - 52;
            m = (if 0 \<le> e then round_div p (q * 2 ^ nat e) else round_div (p * 2 ^ nat (- e)) q)
        in if 1024 \<le> k \<or> (k = 1023 \<and> 2 ^ 53 \<le> m) then (if 0 < x then PosInf else NegInf)
           else let r = (if 0 \<le> e then of_int (m * 2 ^ nat e)
                         else of_int m / of_int (2 ^ nat (- e)))
                in Fin (if 0 < x then r else - r))"

text \<open>
  \<^verbatim>\<open>float(i)\<close> for an integer, also the conversion of an integer operand of a float
  operation: \<^verbatim>\<open>OverflowError\<close> when the integer is too large for a double.
\<close>

definition to_float :: "int \<Rightarrow> error + pyfloat" where
  "to_float i = (case round_double (of_int i) of Fin r \<Rightarrow> Inr (Fin r) | _ \<Rightarrow> Inl OverflowError)"

text \<open>Negation, addition and subtraction of floats; an overflow gives an infinity.\<close>

fun fneg :: "pyfloat \<Rightarrow> pyfloat" where
  "fneg (Fin r) = Fin (- r)"
| "fneg PosInf = NegInf"
| "fneg NegInf = PosInf"
| "fneg NaN = NaN"

fun fadd :: "pyfloat \<Rightarrow> pyfloat \<Rightarrow> pyfloat" where
  "fadd (Fin a) (Fin b) = round_double (a + b)"
| "fadd NaN y = NaN"
| "fadd x NaN = NaN"
| "fadd PosInf NegInf = NaN"
| "fadd NegInf PosInf = NaN"
| "fadd PosInf y = PosInf"
| "fadd x PosInf = PosInf"
| "fadd NegInf y = NegInf"
| "fadd x NegInf = NegInf"

definition fsub :: "pyfloat \<Rightarrow> pyfloat \<Rightarrow> pyfloat" where
  "fsub x y = fadd x (fneg y)"

text \<open>The quotient of two floats whose divisor is not zero.\<close>

fun fdiv :: "pyfloat \<Rightarrow> pyfloat \<Rightarrow> pyfloat" where
  "fdiv (Fin a) (Fin b) = round_double (a / b)"
| "fdiv NaN y = NaN"
| "fdiv x NaN = NaN"
| "fdiv (Fin a) y = Fin 0"
| "fdiv PosInf (Fin b) = (if 0 < b then PosInf else NegInf)"
| "fdiv NegInf (Fin b) = (if 0 < b then NegInf else PosInf)"
| "fdiv x y = NaN"

text \<open>\<^verbatim>\<open>a / b\<close> on floats: a zero divisor raises, whatever the dividend.\<close>

definition float_div :: "pyfloat \<Rightarrow> pyfloat \<Rightarrow> error + pyfloat" where
  "float_div a b = (if b = Fin 0 then Inl ZeroDivisionError else Inr (fdiv a b))"

definition is_finite :: "pyfloat \<Rightarrow> bool" where
  "is_finite x = (case x of Fin r \<Rightarrow> True | _ \<Rightarrow> False)"

definition fin_val :: "pyfloat \<Rightarrow> rat" where
  "fin_val x = (case x of Fin r \<Rightarrow> r | _ \<Rightarrow> 0)"

section \<open>Detail enrichment\<close>

fun comma_join :: "string list \<Rightarrow> string" where
  "comma_join [] = []"
| "comma_join [x] = x"
| "comma_join (x # y # zs) = x @ '', '' @ comma_join (y # zs)"

text \<open>\<^verbatim>\<open>g['name']\<close> for an element of a list of sub-entities, which must be a string to be joined.\<close>

fun name_of :: "pyval \<Rightarrow> string option" where
  "name_of (PDict kvs) = (case map_of kvs ''name'' of Some (PStr s) \<Rightarrow> Some s | _ \<Rightarrow> None)"
| "name_of v = None"

fun all_some :: "'a option list \<Rightarrow> 'a list option" where
  "all_some [] = Some []"
| "all_some (x # xs) =
     (case x of None \<Rightarrow> None
      | Some y \<Rightarrow> (case all_some xs of None \<Rightarrow> None | Some ys \<Rightarrow> Some (y # ys)))"

text \<open>\<^verbatim>\<open>', '.join([g['name'] for g in v])\<close>; \<open>None\<close> when any step raises.\<close>

definition join_names :: "pyval \<Rightarrow> string option" where
  "join_names v =
     (case py_iter v of None \<Rightarrow> None
      | Some gs \<Rightarrow> (case all_some (map name_of gs) of None \<Rightarrow> None
                    | Some ns \<Rightarrow> Some (comma_join ns)))"

text \<open>
  The dictionary that \<^verbatim>\<open>fetch_movie_details\<close> builds from a response; \<open>None\<close> when
  building it raises. \<open>str_of\<close> is Python's \<^verbatim>\<open>str\<close>.
\<close>

definition keywords_of :: "pydict \<Rightarrow> string option" where
  "keywords_of m =
     (case dget m ''keywords'' (PDict []) of
        PDict kw \<Rightarrow> join_names (dget kw ''keywords'' (PList []))
      | _ \<Rightarrow> None)"

definition detail_dict :: "(pyval \<Rightarrow> string) \<Rightarrow> pyval \<Rightarrow> pydict
    \<Rightarrow> string \<Rightarrow> string \<Rightarrow> string \<Rightarrow> string \<Rightarrow> pydict" where
  "detail_dict str_of movie_id m genres companies languages keywords =
     [(''movie_id'', movie_id),
      (''budget'', dget m ''budget'' PNone),
      (''revenue'', dget m ''revenue'' PNone),
      (''runtime'', dget m ''runtime'' PNone),
      (''status'', dget m ''status'' (PStr [])),
      (''tagline'', dget m ''tagline'' (PStr [])),
      (''genres'', PStr genres),
      (''production_companies'', PStr companies),
      (''spoken_languages'', PStr languages),
      (''original_language'', dget m ''original_language'' (PStr [])),
      (''adult'', PStr (str_of (dget m ''adult'' (PBool False)))),
      (''homepage'', dget m ''homepage'' (PStr [])),
      (''imdb_id'', dget m ''imdb_id'' (PStr [])),
      (''keywords'', PStr keywords)]"

fun detail_fields :: "(pyval \<Rightarrow> string) \<Rightarrow> pyval \<Rightarrow> pyval \<Rightarrow> pydict option" where
  "detail_fields str_of movie_id (PDict m) =
     (case join_names (dget m ''genres'' (PList [])) of None \<Rightarrow> None
      | Some genres \<Rightarrow>
     (case join_names (dget m ''production_companies'' (PList [])) of None \<Rightarrow> None
      | Some companies \<Rightarrow>
     (case join_names (dget m ''spoken_languages'' (PList [])) of None \<Rightarrow> None
      | Some languages \<Rightarrow>
     (case keywords_of m of None \<Rightarrow> None
      | Some keywords \<Rightarrow>
          Some (detail_dict str_of movie_id m genres companies languages keywords)))))"
| "detail_fields str_of movie_id movie = None"

text \<open>
  \<^verbatim>\<open>fetch_movie_details\<close>: \<open>api\<close> is the request for the details of one identifier.
  Every exception is caught and answered by the stub \<^verbatim>\<open>{'movie_id': movie_id}\<close>.
\<close>

definition fetch_movie_details ::
  "(pyval \<Rightarrow> string) \<Rightarrow> (pyval \<Rightarrow> error + pyval) \<Rightarrow> pyval \<Rightarrow> pydict" where
  "fetch_movie_details str_of api movie_id =
     (case api movie_id of
        Inl e \<Rightarrow> [(''movie_id'', movie_id)]
      | Inr movie \<Rightarrow>
          (case detail_fields str_of movie_id movie of
             None \<Rightarrow> [(''movie_id'', movie_id)]
           | Some d \<Rightarrow> d))"

text \<open>\<^verbatim>\<open>movie["movie_id"]\<close> used as a dictionary key.\<close>

definition movie_key :: "pydict \<Rightarrow> error + pykey" where
  "movie_key movie =
     (case ditem movie ''movie_id'' of Inl e \<Rightarrow> Inl e
      | Inr v \<Rightarrow> (case key_of v of None \<Rightarrow> Inl TypeError | Some k \<Rightarrow> Inr k))"

text \<open>
  The first loop of \<^verbatim>\<open>enrich_movie_data_parallel\<close>: \<open>seen\<close> holds the keys of
  \<^verbatim>\<open>unique_movie_ids\<close>, the result is what the loop appends to \<^verbatim>\<open>unique_movies\<close>.
\<close>

fun unique_loop :: "pykey list \<Rightarrow> pydict list \<Rightarrow> error + pydict list" where
  "unique_loop seen [] = Inr []"
| "unique_loop seen (movie # rest) =
     (case movie_key movie of Inl e \<Rightarrow> Inl e
      | Inr k \<Rightarrow>
          if k \<in> set seen then unique_loop seen rest
          else (case unique_loop (k # seen) rest of Inl e \<Rightarrow> Inl e
                | Inr us \<Rightarrow> Inr (movie # us)))"

text \<open>
  \<^verbatim>\<open>{detail['movie_id']: detail for detail in details_list if detail}\<close>, started from
  the dictionary \<open>acc\<close>.
\<close>

fun details_dict :: "(pykey \<times> pydict) list \<Rightarrow> pydict list \<Rightarrow> error + (pykey \<times> pydict) list" where
  "details_dict acc [] = Inr acc"
| "details_dict acc (detail # rest) =
     (if detail \<noteq> [] then
        (case movie_key detail of Inl e \<Rightarrow> Inl e
         | Inr k \<Rightarrow> details_dict (AList.update k detail acc) rest)
      else details_dict acc rest)"

text \<open>The body of the join loop for one listing.\<close>

definition join_movie :: "(pykey \<times> pydict) list \<Rightarrow> pydict \<Rightarrow> error + pydict" where
  "join_movie dd movie =
     (case movie_key movie of Inl e \<Rightarrow> Inl e
      | Inr k \<Rightarrow>
          (case map_of dd k of
             Some detail \<Rightarrow> Inr (dict_merge movie (AList.delete ''movie_id'' detail))
           | None \<Rightarrow> Inr movie))"

text \<open>
  \<^verbatim>\<open>movies_to_process\<close>: \<^verbatim>\<open>unique_movies[:max_details] if max_details else unique_movies\<close>.
\<close>

definition select_movies :: "int option \<Rightarrow> 'a list \<Rightarrow> 'a list" where
  "select_movies max_details unique_movies =
     (case max_details of
        None \<Rightarrow> unique_movies
      | Some k \<Rightarrow> if k \<noteq> 0 then slice_to k unique_movies else unique_movies)"

text \<open>
  \<^verbatim>\<open>enrich_movie_data_parallel\<close>. The pool maps \<^verbatim>\<open>fetch_movie_details\<close> over the
  identifiers and returns the results in their order; a pool of no workers is refused
  with \<^verbatim>\<open>ValueError\<close>.
\<close>

definition enrich_movie_data_parallel ::
  "(pyval \<Rightarrow> string) \<Rightarrow> (pyval \<Rightarrow> error + pyval) \<Rightarrow> pydict list \<Rightarrow> int option \<Rightarrow> int
     \<Rightarrow> error + pydict list" where
  "enrich_movie_data_parallel str_of api movies_list max_details max_workers =
     (case unique_loop [] movies_list of Inl e \<Rightarrow> Inl e
      | Inr unique_movies \<Rightarrow>
          let movies_to_process = select_movies max_details unique_movies in
          (case mapM (\<lambda>movie. ditem movie ''movie_id'') movies_to_process of Inl e \<Rightarrow> Inl e
           | Inr movie_ids \<Rightarrow>
               if max_workers \<le> 0 then Inl ValueError
               else
                 let details_list = map (fetch_movie_details str_of api) movie_ids in
                 (case details_dict [] details_list of Inl e \<Rightarrow> Inl e
                  | Inr dd \<Rightarrow> mapM (join_movie dd) movies_to_process)))"

text \<open>
  What the join gives for one listing whose details are the answer of
  \<^const>\<open>fetch_movie_details\<close> to its identifier.
\<close>

definition enriched_record ::
  "(pyval \<Rightarrow> string) \<Rightarrow> (pyval \<Rightarrow> error + pyval) \<Rightarrow> pydict \<Rightarrow> pydict" where
  "enriched_record str_of api movie =
     dict_merge movie
       (AList.delete ''movie_id'' (fetch_movie_details str_of api (dget movie ''movie_id'' PNone)))"

section \<open>Listing extraction\<close>

text \<open>An f-string field \<^verbatim>\<open>{v}\<close>: a string is inserted as it is, any other value through \<^verbatim>\<open>str\<close>.\<close>

definition fmt :: "(pyval \<Rightarrow> string) \<Rightarrow> pyval \<Rightarrow> string" where
  "fmt str_of v = (case v of PStr s \<Rightarrow> s | _ \<Rightarrow> str_of v)"

text \<open>The dictionary \<^verbatim>\<open>movie_element\<close> of \<^verbatim>\<open>fetch_movies\<close>, for a movie \<open>m\<close> with identifier and title.\<close>

definition movie_element :: "(pyval \<Rightarrow> string) \<Rightarrow> pyval \<Rightarrow> pyval \<Rightarrow> pydict \<Rightarrow> pydict" where
  "movie_element str_of movie_id title m =
     [(''movie_id'', movie_id),
      (''title'', title),
      (''release_date'', dget m ''release_date'' (PStr [])),
      (''vote_average'', dget m ''vote_average'' PNone),
      (''vote_count'', dget m ''vote_count'' PNone),
      (''popularity'', dget m ''popularity'' PNone),
      (''overview'', dget m ''overview'' (PStr ''No overview available'')),
      (''poster_url'',
         if truthy (dget m ''poster_path'' PNone)
         then PStr (''<https://image.tmdb.org/t/p/w500'' @ fmt str_of (dget m ''poster_path'' PNone) @ ''>'')
         else PNone)]"

text \<open>
  The inner loop of \<^verbatim>\<open>fetch_movies\<close> over the results of one page. It returns the
  identifiers seen, the records appended to \<^verbatim>\<open>movies_list\<close> and the exception that
  stopped it, if any: what was appended before an exception stays appended.
\<close>

fun page_loop ::
  "(pyval \<Rightarrow> string) \<Rightarrow> pykey list \<Rightarrow> pyval list \<Rightarrow> pykey list \<times> pydict list \<times> error option" where
  "page_loop str_of seen [] = (seen, [], None)"
| "page_loop str_of seen (movie # rest) =
     (case movie of
        PDict m \<Rightarrow>
          (case ditem m ''id'' of Inl e \<Rightarrow> (seen, [], Some e)
           | Inr movie_id \<Rightarrow>
               (case key_of movie_id of None \<Rightarrow> (seen, [], Some TypeError)
                | Some k \<Rightarrow>
                    if k \<in> set seen then page_loop str_of seen rest
                    else (case ditem m ''title'' of Inl e \<Rightarrow> (k # seen, [], Some e)
                          | Inr title \<Rightarrow>
                              (case page_loop str_of (k # seen) rest of
                                 (seen', recs, err) \<Rightarrow>
                                   (seen', movie_element str_of movie_id title m # recs, err)))))
      | _ \<Rightarrow> (seen, [], Some TypeError))"

text \<open>The \<^verbatim>\<open>try\<close> block of one page; \<open>api\<close> is \<^verbatim>\<open>make_api_request\<close> on the page's URL.\<close>

definition try_page ::
  "(pyval \<Rightarrow> string) \<Rightarrow> (int \<Rightarrow> error + pyval) \<Rightarrow> pykey list \<Rightarrow> int
     \<Rightarrow> pykey list \<times> pydict list \<times> error option" where
  "try_page str_of api seen page =
     (case api page of Inl e \<Rightarrow> (seen, [], Some e)
      | Inr data \<Rightarrow>
          (case data of
             PDict d \<Rightarrow>
               (case py_iter (dget d ''results'' (PList [])) of
                  None \<Rightarrow> (seen, [], Some TypeError)
                | Some movies \<Rightarrow> page_loop str_of seen movies)
           | _ \<Rightarrow> (seen, [], Some AttributeError)))"

text \<open>The loop over the pages: an exception on page 1 is raised again, a later one ends the loop.\<close>

fun fetch_pages ::
  "(pyval \<Rightarrow> string) \<Rightarrow> (int \<Rightarrow> error + pyval) \<Rightarrow> pykey list \<Rightarrow> pydict list \<Rightarrow> int list
     \<Rightarrow> error + pydict list" where
  "fetch_pages str_of api seen movies_list [] = Inr movies_list"
| "fetch_pages str_of api seen movies_list (page # pages) =
     (case try_page str_of api seen page of
        (seen', recs, Some e) \<Rightarrow> if page = 1 then Inl e else Inr (movies_list @ recs)
      | (seen', recs, None) \<Rightarrow> fetch_pages str_of api seen' (movies_list @ recs) pages)"

definition fetch_movies ::
  "(pyval \<Rightarrow> string) \<Rightarrow> (int \<Rightarrow> error + pyval) \<Rightarrow> int \<Rightarrow> error + pydict list" where
  "fetch_movies str_of api max_pages = fetch_pages str_of api [] [] [1..max_pages]"

section \<open>Statistics\<close>

definition numerical_features :: "string list" where
  "numerical_features =
     [''vote_average'', ''vote_count'', ''popularity'', ''runtime'', ''budget'', ''revenue'']"

text \<open>
  \<^verbatim>\<open>float(v)\<close>; \<open>float_of_str\<close> is \<^verbatim>\<open>float\<close> on a string, \<open>None\<close> where it raises
  \<^verbatim>\<open>ValueError\<close>.
\<close>

fun py_float :: "(string \<Rightarrow> pyfloat option) \<Rightarrow> pyval \<Rightarrow> error + pyfloat" where
  "py_float float_of_str PNone = Inl TypeError"
| "py_float float_of_str (PBool b) = Inr (Fin (if b then 1 else 0))"
| "py_float float_of_str (PInt i) = to_float i"
| "py_float float_of_str (PFloat x) = Inr x"
| "py_float float_of_str (PStr s) =
     (case float_of_str s of None \<Rightarrow> Inl ValueError | Some x \<Rightarrow> Inr x)"
| "py_float float_of_str (PList xs) = Inl TypeError"
| "py_float float_of_str (PDict kvs) = Inl TypeError"

text \<open>The collecting loops of \<^verbatim>\<open>calculate_statistics\<close>: features inside, movies outside.\<close>

fun collect_features ::
  "(string \<Rightarrow> pyfloat option) \<Rightarrow> pydict \<Rightarrow> (string \<Rightarrow> pyfloat list) \<Rightarrow> string list
     \<Rightarrow> error + (string \<Rightarrow> pyfloat list)" where
  "collect_features float_of_str movie vals [] = Inr vals"
| "collect_features float_of_str movie vals (feature # fs) =
     (case map_of movie feature of
        None \<Rightarrow> collect_features float_of_str movie vals fs
      | Some v \<Rightarrow>
          if v \<noteq> PNone then
            (case py_float float_of_str v of Inl e \<Rightarrow> Inl e
             | Inr x \<Rightarrow>
                 collect_features float_of_str movie (vals(feature := vals feature @ [x])) fs)
          else collect_features float_of_str movie vals fs)"

fun collect_values ::
  "(string \<Rightarrow> pyfloat option) \<Rightarrow> (string \<Rightarrow> pyfloat list) \<Rightarrow> pydict list
     \<Rightarrow> error + (string \<Rightarrow> pyfloat list)" where
  "collect_values float_of_str vals [] = Inr vals"
| "collect_values float_of_str vals (movie # rest) =
     (case collect_features float_of_str movie vals numerical_features of Inl e \<Rightarrow> Inl e
      | Inr vals' \<Rightarrow> collect_values float_of_str vals' rest)"

text \<open>
  \<^verbatim>\<open>sorted\<close> on a list of floats. Without NaN the floats are in increasing order. With
  NaN, on which every comparison is false, the order depends on the comparisons the
  sort happens to make: \<open>sorted_nan\<close> is what \<^verbatim>\<open>sorted\<close> returns then.
\<close>

definition fkey :: "pyfloat \<Rightarrow> int \<times> rat" where
  "fkey x = (case x of NegInf \<Rightarrow> (0, 0) | Fin r \<Rightarrow> (1, r) | PosInf \<Rightarrow> (2, 0) | NaN \<Rightarrow> (3, 0))"

definition py_sorted :: "(pyfloat list \<Rightarrow> pyfloat list) \<Rightarrow> pyfloat list \<Rightarrow> pyfloat list" where
  "py_sorted sorted_nan xs = (if NaN \<in> set xs then sorted_nan xs else sort_key fkey xs)"

text \<open>
  \<^verbatim>\<open>statistics.median\<close> of the standard library: the middle value of the sorted data, or
  \<^verbatim>\<open>(data[i - 1] + data[i]) / 2\<close> in float arithmetic; \<open>n\<close> is the length of the data, which
  sorting keeps.
\<close>

definition median :: "(pyfloat list \<Rightarrow> pyfloat list) \<Rightarrow> pyfloat list \<Rightarrow> error + pyfloat" where
  "median sorted_nan xs =
     (let data = py_sorted sorted_nan xs; n = length xs in
      if n = 0 then Inl StatisticsError
      else if n mod 2 = 1 then Inr (data ! (n div 2))
      else let i = n div 2 in float_div (fadd (data ! (i - 1)) (data ! i)) (Fin 2))"

text \<open>
  \<^verbatim>\<open>statistics.mean\<close> of the standard library on floats: the exact sum of finite data
  divided by their number, rounded once; data that are not all finite give the float
  sum of the infinities and NaNs among them, divided by the number of data.
\<close>

definition mean :: "pyfloat list \<Rightarrow> error + pyfloat" where
  "mean xs =
     (if xs = [] then Inl StatisticsError
      else if list_all is_finite xs
      then Inr (round_double (sum_list (map fin_val xs) / of_nat (length xs)))
      else float_div (foldl fadd (Fin 0) (filter (\<lambda>x. \<not> is_finite x) xs))
             (Fin (of_nat (length xs))))"

definition feature_stat ::
  "(pyfloat list \<Rightarrow> pyfloat list) \<Rightarrow> (string \<Rightarrow> pyfloat list) \<Rightarrow> string \<Rightarrow> error + pyval" where
  "feature_stat sorted_nan vals feature =
     (if vals feature \<noteq> [] then
        (if feature \<in> set [''budget'', ''revenue'', ''vote_count'']
         then (case median sorted_nan (vals feature) of Inl e \<Rightarrow> Inl e
               | Inr x \<Rightarrow> Inr (PFloat x))
         else (case mean (vals feature) of Inl e \<Rightarrow> Inl e | Inr x \<Rightarrow> Inr (PFloat x)))
      else Inr (PInt 0))"

fun stats_loop ::
  "(pyfloat list \<Rightarrow> pyfloat list) \<Rightarrow> (string \<Rightarrow> pyfloat list) \<Rightarrow> string list \<Rightarrow> error + pydict" where
  "stats_loop sorted_nan vals [] = Inr []"
| "stats_loop sorted_nan vals (feature # fs) =
     (case feature_stat sorted_nan vals feature of Inl e \<Rightarrow> Inl e
      | Inr v \<Rightarrow> (case stats_loop sorted_nan vals fs of Inl e \<Rightarrow> Inl e
                  | Inr st \<Rightarrow> Inr ((feature, v) # st)))"

definition calculate_statistics ::
  "(string \<Rightarrow> pyfloat option) \<Rightarrow> (pyfloat list \<Rightarrow> pyfloat list) \<Rightarrow> pydict list \<Rightarrow> error + pydict" where
  "calculate_statistics float_of_str sorted_nan movies_list =
     (case collect_values float_of_str (\<lambda>feature. []) movies_list of Inl e \<Rightarrow> Inl e
      | Inr vals \<Rightarrow> stats_loop sorted_nan vals numerical_features)"

section \<open>Cleaning and feature engineering\<close>

text \<open>
  The imputation of one numeric field: \<^verbatim>\<open>movie[f] = movie.get(f) if movie.get(f) is not
  None else stats[f]\<close>.
\<close>

definition impute :: "pydict \<Rightarrow> string \<Rightarrow> pydict \<Rightarrow> error + pydict" where
  "impute stats feature movie =
     (if dget movie feature PNone \<noteq> PNone
      then Inr (AList.update feature (dget movie feature PNone) movie)
      else (case ditem stats feature of Inl e \<Rightarrow> Inl e
            | Inr s \<Rightarrow> Inr (AList.update feature s movie)))"

fun impute_all :: "pydict \<Rightarrow> string list \<Rightarrow> pydict \<Rightarrow> error + pydict" where
  "impute_all stats [] movie = Inr movie"
| "impute_all stats (feature # fs) movie =
     (case impute stats feature movie of Inl e \<Rightarrow> Inl e
      | Inr movie' \<Rightarrow> impute_all stats fs movie')"

definition fill_defaults :: "pydict \<Rightarrow> pydict" where
  "fill_defaults movie =
     setdefault ''keywords'' (PStr [])
       (setdefault ''original_language'' (PStr ''Unknown'')
         (setdefault ''spoken_languages'' (PStr ''Unknown'')
           (setdefault ''production_companies'' (PStr ''Unknown'')
             (setdefault ''genres'' (PStr ''Unknown'')
               (setdefault ''tagline'' (PStr [])
                 (setdefault ''overview'' (PStr ''No overview available'') movie))))))"

subsection \<open>Parsing the release date\<close>

text \<open>
  \<^verbatim>\<open>datetime.strptime(s, '%Y-%m-%d')\<close> of the standard library: four digits, a month
  \<^verbatim>\<open>1[0-2]|0[1-9]|[1-9]\<close>, a day \<^verbatim>\<open>3[01]|[12]\d|0[1-9]|[1-9]| [1-9]\<close>, nothing after the
  day, and a date that exists in the calendar. \<open>None\<close> is the \<^verbatim>\<open>ValueError\<close>.
\<close>

definition is_digit :: "char \<Rightarrow> bool" where
  "is_digit c = (c \<in> set ''0123456789'')"

definition digit_val :: "char \<Rightarrow> nat" where
  "digit_val c = of_char c - 48"

fun month_of :: "string \<Rightarrow> nat option" where
  "month_of [a] = (if is_digit a \<and> a \<noteq> CHR ''0'' then Some (digit_val a) else None)"
| "month_of [a, b] =
     (if a = CHR ''1'' \<and> b \<in> set ''012'' then Some (10 + digit_val b)
      else if a = CHR ''0'' \<and> is_digit b \<and> b \<noteq> CHR ''0'' then Some (digit_val b)
      else None)"
| "month_of s = None"

fun day_of :: "string \<Rightarrow> nat option" where
  "day_of [a] = (if is_digit a \<and> a \<noteq> CHR ''0'' then Some (digit_val a) else None)"
| "day_of [a, b] =
     (if a = CHR ''3'' \<and> b \<in> set ''01'' then Some (30 + digit_val b)
      else if a \<in> set ''12'' \<and> is_digit b then Some (10 * digit_val a + digit_val b)
      else if a \<in> set ''0 '' \<and> is_digit b \<and> b \<noteq> CHR ''0'' then Some (digit_val b)
      else None)"
| "day_of s = None"

definition is_leap :: "nat \<Rightarrow> bool" where
  "is_leap y = (y mod 4 = 0 \<and> (y mod 100 \<noteq> 0 \<or> y mod 400 = 0))"

definition days_in_month :: "nat \<Rightarrow> nat \<Rightarrow> nat" where
  "days_in_month y m =
     (if m = 2 then (if is_leap y then 29 else 28)
      else if m \<in> set [4, 6, 9, 11] then 30 else 31)"

fun strptime_ymd :: "string \<Rightarrow> (nat \<times> nat \<times> nat) option" where
  "strptime_ymd (y1 # y2 # y3 # y4 # dash # rest) =
     (if is_digit y1 \<and> is_digit y2 \<and> is_digit y3 \<and> is_digit y4 \<and> dash = CHR ''-'' then
        (let year = 1000 * digit_val y1 + 100 * digit_val y2 + 10 * digit_val y3 + digit_val y4;
             ms = takeWhile (\<lambda>c. c \<noteq> CHR ''-'') rest;
             after = dropWhile (\<lambda>c. c \<noteq> CHR ''-'') rest
         in case after of
              [] \<Rightarrow> None
            | d # ds \<Rightarrow>
                (case month_of ms of None \<Rightarrow> None
                 | Some month \<Rightarrow>
                     (case day_of ds of None \<Rightarrow> None
                      | Some day \<Rightarrow>
                          if 1 \<le> year \<and> day \<le> days_in_month year month
                          then Some (year, month, day) else None)))
      else None)"
| "strptime_ymd s = None"

text \<open>
  The value stored in \<^verbatim>\<open>release_year\<close>: a truthy \<^verbatim>\<open>release_date\<close> is parsed, and both
  \<^verbatim>\<open>ValueError\<close> (a string that is no date) and \<^verbatim>\<open>TypeError\<close> (no string) are caught.
\<close>

definition release_year_of :: "pydict \<Rightarrow> pyval" where
  "release_year_of movie =
     (case map_of movie ''release_date'' of
        None \<Rightarrow> PNone
      | Some v \<Rightarrow>
          if truthy v then
            (case v of
               PStr s \<Rightarrow> (case strptime_ymd s of None \<Rightarrow> PNone
                          | Some (y, m, d) \<Rightarrow> PInt (int y))
             | _ \<Rightarrow> PNone)
          else PNone)"

subsection \<open>Arithmetic on field values\<close>

text \<open>
  The numbers among the values; a Boolean counts as the integer it is. \<open>None\<close> means the
  value is no number, on which arithmetic and ordering raise \<^verbatim>\<open>TypeError\<close>.
\<close>

datatype num = NInt int | NFlt pyfloat

fun as_num :: "pyval \<Rightarrow> num option" where
  "as_num (PBool b) = Some (NInt (if b then 1 else 0))"
| "as_num (PInt i) = Some (NInt i)"
| "as_num (PFloat x) = Some (NFlt x)"
| "as_num v = None"

text \<open>The float operand that an integer or a float is in a float operation.\<close>

fun num_float :: "num \<Rightarrow> error + pyfloat" where
  "num_float (NInt i) = to_float i"
| "num_float (NFlt x) = Inr x"

text \<open>\<^verbatim>\<open>a - b\<close>: the exact integer for two integers, the float difference otherwise.\<close>

fun num_sub :: "num \<Rightarrow> num \<Rightarrow> error + pyval" where
  "num_sub (NInt i) (NInt j) = Inr (PInt (i - j))"
| "num_sub x y =
     (case num_float x of Inl e \<Rightarrow> Inl e
      | Inr a \<Rightarrow> (case num_float y of Inl e \<Rightarrow> Inl e | Inr b \<Rightarrow> Inr (PFloat (fsub a b))))"

definition py_sub :: "pyval \<Rightarrow> pyval \<Rightarrow> error + pyval" where
  "py_sub a b =
     (case as_num a of None \<Rightarrow> Inl TypeError
      | Some x \<Rightarrow> (case as_num b of None \<Rightarrow> Inl TypeError | Some y \<Rightarrow> num_sub x y))"

text \<open>
  \<^verbatim>\<open>a / b\<close>, true division: the quotient of two integers is rounded once, and is an
  \<^verbatim>\<open>OverflowError\<close> when it is too large for a double; otherwise the float quotient.
\<close>

fun num_truediv :: "num \<Rightarrow> num \<Rightarrow> error + pyval" where
  "num_truediv (NInt i) (NInt j) =
     (if j = 0 then Inl ZeroDivisionError
      else (case round_double (of_int i / of_int j) of
              Fin r \<Rightarrow> Inr (PFloat (Fin r))
            | _ \<Rightarrow> Inl OverflowError))"
| "num_truediv x y =
     (case num_float x of Inl e \<Rightarrow> Inl e
      | Inr a \<Rightarrow>
          (case num_float y of Inl e \<Rightarrow> Inl e
           | Inr b \<Rightarrow> (case float_div a b of Inl e \<Rightarrow> Inl e | Inr q \<Rightarrow> Inr (PFloat q))))"

definition py_truediv :: "pyval \<Rightarrow> pyval \<Rightarrow> error + pyval" where
  "py_truediv a b =
     (case as_num a of None \<Rightarrow> Inl TypeError
      | Some x \<Rightarrow> (case as_num b of None \<Rightarrow> Inl TypeError | Some y \<Rightarrow> num_truediv x y))"

text \<open>
  \<^verbatim>\<open>a > c\<close> and \<^verbatim>\<open>a < c\<close> for an integer constant \<open>c\<close>: numbers are compared by their
  exact values, and every comparison with NaN is false.
\<close>

fun num_gt :: "num \<Rightarrow> int \<Rightarrow> bool" where
  "num_gt (NInt i) c = (c < i)"
| "num_gt (NFlt (Fin r)) c = (of_int c < r)"
| "num_gt (NFlt PosInf) c = True"
| "num_gt (NFlt NegInf) c = False"
| "num_gt (NFlt NaN) c = False"

fun num_lt :: "num \<Rightarrow> int \<Rightarrow> bool" where
  "num_lt (NInt i) c = (i < c)"
| "num_lt (NFlt (Fin r)) c = (r < of_int c)"
| "num_lt (NFlt PosInf) c = False"
| "num_lt (NFlt NegInf) c = True"
| "num_lt (NFlt NaN) c = False"

definition py_gt :: "pyval \<Rightarrow> int \<Rightarrow> error + bool" where
  "py_gt a c = (case as_num a of None \<Rightarrow> Inl TypeError | Some x \<Rightarrow> Inr (num_gt x c))"

definition py_lt :: "pyval \<Rightarrow> int \<Rightarrow> error + bool" where
  "py_lt a c = (case as_num a of None \<Rightarrow> Inl TypeError | Some x \<Rightarrow> Inr (num_lt x c))"

text \<open>\<^verbatim>\<open>v == 0\<close>, which never raises.\<close>

fun is_zero :: "pyval \<Rightarrow> bool" where
  "is_zero (PBool b) = (\<not> b)"
| "is_zero (PInt i) = (i = 0)"
| "is_zero (PFloat x) = (x = Fin 0)"
| "is_zero v = False"

text \<open>The \<^verbatim>\<open>roi\<close> of a budget and a revenue, as the \<^verbatim>\<open>if\<close> of the source computes it.\<close>

definition roi_of :: "pyval \<Rightarrow> pyval \<Rightarrow> error + pyval" where
  "roi_of budget revenue =
     (case py_gt budget 0 of Inl e \<Rightarrow> Inl e
      | Inr positive \<Rightarrow>
          if positive then
            (case py_sub revenue budget of Inl e \<Rightarrow> Inl e
             | Inr difference \<Rightarrow> py_truediv difference budget)
          else Inr (if is_zero revenue then PInt 0 else PFloat PosInf))"

definition popularity_category :: "pyval \<Rightarrow> error + pyval" where
  "popularity_category popularity =
     (case py_lt popularity 100 of Inl e \<Rightarrow> Inl e
      | Inr low \<Rightarrow>
          if low then Inr (PStr ''Low'')
          else (case py_lt popularity 500 of Inl e \<Rightarrow> Inl e
                | Inr medium \<Rightarrow> Inr (PStr (if medium then ''Medium'' else ''High''))))"

text \<open>The body of the cleaning loop for one movie, which the source updates in place.\<close>

definition derive_features :: "pydict \<Rightarrow> error + pydict" where
  "derive_features movie0 =
     (let movie1 = AList.update ''release_year'' (release_year_of movie0) movie0 in
      case ditem movie1 ''revenue'' of Inl e \<Rightarrow> Inl e | Inr revenue \<Rightarrow>
      (case ditem movie1 ''budget'' of Inl e \<Rightarrow> Inl e | Inr budget \<Rightarrow>
      (case py_sub revenue budget of Inl e \<Rightarrow> Inl e | Inr profit \<Rightarrow>
      (let movie2 = AList.update ''profit'' profit movie1 in
       case ditem movie2 ''budget'' of Inl e \<Rightarrow> Inl e | Inr budget2 \<Rightarrow>
       (case ditem movie2 ''revenue'' of Inl e \<Rightarrow> Inl e | Inr revenue2 \<Rightarrow>
       (case roi_of budget2 revenue2 of Inl e \<Rightarrow> Inl e | Inr roi \<Rightarrow>
       (let movie3 = AList.update ''roi'' roi movie2 in
        case ditem movie3 ''popularity'' of Inl e \<Rightarrow> Inl e | Inr popularity \<Rightarrow>
        (case popularity_category popularity of Inl e \<Rightarrow> Inl e
         | Inr category \<Rightarrow> Inr (AList.update ''popularity_category'' category movie3)))))))))"

definition clean_movie :: "pydict \<Rightarrow> pydict \<Rightarrow> error + pydict" where
  "clean_movie stats movie =
     (case impute_all stats numerical_features movie of Inl e \<Rightarrow> Inl e
      | Inr imputed \<Rightarrow> derive_features (fill_defaults imputed))"

text \<open>
  \<^verbatim>\<open>clean_transform_data\<close>. The last loop keeps, in a dictionary keyed by identifier,
  the first movie of each identifier, and the values of that dictionary are returned in
  insertion order: the loop \<^const>\<open>unique_loop\<close> started with no identifier seen.
\<close>

definition clean_transform_data ::
  "(string \<Rightarrow> pyfloat option) \<Rightarrow> (pyfloat list \<Rightarrow> pyfloat list) \<Rightarrow> pydict list
     \<Rightarrow> error + pydict list" where
  "clean_transform_data float_of_str sorted_nan movies_list =
     (if movies_list = [] then Inr []
      else (case calculate_statistics float_of_str sorted_nan movies_list of Inl e \<Rightarrow> Inl e
            | Inr stats \<Rightarrow>
                (case mapM (clean_movie stats) movies_list of Inl e \<Rightarrow> Inl e
                 | Inr cleaned_movies \<Rightarrow> unique_loop [] cleaned_movies)))"

section \<open>Upload and entry point\<close>

text \<open>
  What the run reads from its environment and from the outside world: the configuration
  variables, \<^verbatim>\<open>str\<close>, \<^verbatim>\<open>float\<close> on strings and \<^verbatim>\<open>sorted\<close> on floats with NaN, the
  two endpoints behind \<^verbatim>\<open>make_api_request\<close>, the date of
  \<^verbatim>\<open>datetime.now().strftime("%Y-%m-%d")\<close>, the text the CSV writer produces for a
  non-empty list of records, and whether \<^verbatim>\<open>put_object\<close> succeeds.
\<close>

record config =
  S3_BUCKET_NAME :: string
  S3_FILE_NAME :: string
  MAX_PAGES :: int
  MAX_DETAILS :: int
  MAX_WORKERS :: int

definition default_config :: config where
  "default_config =
     \<lparr>S3_BUCKET_NAME = ''2025tmdbmoviedata'', S3_FILE_NAME = ''movies_data_enriched.csv'',
      MAX_PAGES = 5, MAX_DETAILS = 50, MAX_WORKERS = 5\<rparr>"

record services =
  py_str :: "pyval \<Rightarrow> string"
  py_float_of_str :: "string \<Rightarrow> pyfloat option"
  py_sorted_nan :: "pyfloat list \<Rightarrow> pyfloat list"
  popular_page :: "int \<Rightarrow> error + pyval"
  movie_details :: "pyval \<Rightarrow> error + pyval"
  today :: string
  csv_text :: "pydict list \<Rightarrow> string"
  put_succeeds :: "string \<Rightarrow> string \<Rightarrow> bool"

type_synonym s3 = "string \<times> string \<Rightarrow> string option"

definition placeholder_csv :: string where
  "placeholder_csv =
     ''movie_id,title,message'' @ [CHR 0x0D, CHR 0x0A] @
     ''0,No Data,No movie data was processed'' @ [CHR 0x0D, CHR 0x0A]"

definition file_key :: "services \<Rightarrow> string" where
  "file_key sv = ''daily_outputs/movies_data_'' @ today sv @ ''.csv''"

definition upload_to_s3 :: "services \<Rightarrow> config \<Rightarrow> s3 \<Rightarrow> pydict list \<Rightarrow> error + s3" where
  "upload_to_s3 sv cfg store movies_data =
     (let body = (if movies_data = [] then placeholder_csv else csv_text sv movies_data) in
      if put_succeeds sv (S3_BUCKET_NAME cfg) (file_key sv)
      then Inr (store((S3_BUCKET_NAME cfg, file_key sv) \<mapsto> body))
      else Inl UploadError)"

datatype body = Success nat string | Failure error

datatype response = Response int body

definition destination :: "config \<Rightarrow> string" where
  "destination cfg = ''s3://'' @ S3_BUCKET_NAME cfg @ ''/'' @ S3_FILE_NAME cfg"

definition lambda_handler :: "services \<Rightarrow> config \<Rightarrow> s3 \<Rightarrow> response \<times> s3" where
  "lambda_handler sv cfg store =
     (case fetch_movies (py_str sv) (popular_page sv) (MAX_PAGES cfg) of
        Inl e \<Rightarrow> (Response 500 (Failure e), store)
      | Inr movies_list \<Rightarrow>
          if movies_list = [] then (Response 500 (Failure NoMovies), store)
          else
            (case enrich_movie_data_parallel (py_str sv) (movie_details sv) movies_list
                    (Some (MAX_DETAILS cfg)) (MAX_WORKERS cfg) of
               Inl e \<Rightarrow> (Response 500 (Failure e), store)
             | Inr enriched_movies \<Rightarrow>
                 (case clean_transform_data (py_float_of_str sv) (py_sorted_nan sv) enriched_movies of
                    Inl e \<Rightarrow> (Response 500 (Failure e), store)
                  | Inr cleaned_movies \<Rightarrow>
                      (case upload_to_s3 sv cfg store cleaned_movies of
                         Inl e \<Rightarrow> (Response 500 (Failure e), store)
                       | Inr store' \<Rightarrow>
                           (Response 200 (Success (length cleaned_movies) (destination cfg)),
                            store')))))"

section \<open>Notions used in the statements\<close>

text \<open>
  The first occurrences of a list of keys, in order, leaving out the keys already
  \<open>seen\<close>: what a loop with a set of seen keys lets through.
\<close>

fun firsts :: "'k list \<Rightarrow> 'k list \<Rightarrow> 'k list" where
  "firsts seen [] = []"
| "firsts seen (k # ks) = (if k \<in> set seen then firsts seen ks else k # firsts (k # seen) ks)"


text \<open>
  A detail fetch fails when the request raises, or when building the dictionary from
  the response raises; both are caught in \<^verbatim>\<open>fetch_movie_details\<close>.
\<close>

definition fetch_fails :: "(pyval \<Rightarrow> string) \<Rightarrow> (pyval \<Rightarrow> error + pyval) \<Rightarrow> pyval \<Rightarrow> bool" where
  "fetch_fails str_of api movie_id =
     (case api movie_id of Inl e \<Rightarrow> True
      | Inr movie \<Rightarrow> detail_fields str_of movie_id movie = None)"

text \<open>
  The values observed for a feature: the values of the movies that have it and have it
  not \<^verbatim>\<open>None\<close>, in the order of the movies.
\<close>

definition obs1 :: "pydict \<Rightarrow> string \<Rightarrow> pyval list" where
  "obs1 movie feature =
     (case map_of movie feature of None \<Rightarrow> [] | Some v \<Rightarrow> if v \<noteq> PNone then [v] else [])"

definition observed :: "pydict list \<Rightarrow> string \<Rightarrow> pyval list" where
  "observed movies feature = concat (map (\<lambda>movie. obs1 movie feature) movies)"

text \<open>
  A value on which \<^verbatim>\<open>float\<close> returns, and what it returns (0 stands in where it raises).
\<close>

definition floatable :: "(string \<Rightarrow> pyfloat option) \<Rightarrow> pyval \<Rightarrow> bool" where
  "floatable float_of_str v = (case py_float float_of_str v of Inl e \<Rightarrow> False | Inr x \<Rightarrow> True)"

definition flt :: "(string \<Rightarrow> pyfloat option) \<Rightarrow> pyval \<Rightarrow> pyfloat" where
  "flt float_of_str v = (case py_float float_of_str v of Inl e \<Rightarrow> Fin 0 | Inr x \<Rightarrow> x)"

text \<open>
  The statistic of a feature whose observed values, as floats, are \<open>xs\<close>: the integer 0
  for no value; for \<^verbatim>\<open>budget\<close>, \<^verbatim>\<open>revenue\<close> and \<^verbatim>\<open>vote_count\<close> the median, which is the
  middle value of the sorted values or the float average of the two middle values; for
  the others the mean, which for finite values is their exact sum divided by their
  number and rounded to a float.
\<close>

definition stat_value :: "(pyfloat list \<Rightarrow> pyfloat list) \<Rightarrow> pyfloat list \<Rightarrow> string \<Rightarrow> pyval" where
  "stat_value sorted_nan xs feature =
     (if xs = [] then PInt 0
      else if feature \<in> {''budget'', ''revenue'', ''vote_count''}
      then PFloat (if even (length xs)
                   then fdiv (fadd (py_sorted sorted_nan xs ! (length xs div 2 - 1))
                                   (py_sorted sorted_nan xs ! (length xs div 2))) (Fin 2)
                   else py_sorted sorted_nan xs ! (length xs div 2))
      else PFloat (if list_all is_finite xs
                   then round_double (sum_list (map fin_val xs) / of_nat (length xs))
                   else fdiv (foldl fadd (Fin 0) (filter (\<lambda>x. \<not> is_finite x) xs))
                          (Fin (of_nat (length xs)))))"

text \<open>The value a numeric field has after the imputation with the statistics \<open>stats\<close>.\<close>

definition imputed :: "pydict \<Rightarrow> pydict \<Rightarrow> string \<Rightarrow> pyval" where
  "imputed stats movie feature =
     (if dget movie feature PNone \<noteq> PNone then dget movie feature PNone
      else dget stats feature PNone)"

text \<open>
  The keys that get a default, the dictionary with the four derived fields stored, and
  the keys the cleaning of a movie may store to.
\<close>

definition default_keys :: "string list" where
  "default_keys = [''overview'', ''tagline'', ''genres'', ''production_companies'',
     ''spoken_languages'', ''original_language'', ''keywords'']"

definition derived :: "pydict \<Rightarrow> pyval \<Rightarrow> pyval \<Rightarrow> pyval \<Rightarrow> pydict" where
  "derived m0 profit roi category =
     AList.update ''popularity_category'' category
       (AList.update ''roi'' roi
         (AList.update ''profit'' profit
           (AList.update ''release_year'' (release_year_of m0) m0)))"

definition touched_keys :: "string list" where
  "touched_keys = numerical_features @ default_keys @
     [''release_year'', ''profit'', ''roi'', ''popularity_category'']"

section \<open>Example inputs\<close>

definition example_movies :: "pydict list" where
  "example_movies =
     [[(''movie_id'', PInt 1), (''release_date'', PStr ''2020-05-01''), (''budget'', PInt 0),
       (''revenue'', PInt 500), (''popularity'', PFloat (Fin 99))],
      [(''movie_id'', PInt 2), (''release_date'', PStr []), (''budget'', PInt 100),
       (''revenue'', PInt 150), (''popularity'', PInt 100)],
      [(''movie_id'', PInt 3), (''budget'', PNone), (''revenue'', PInt 0),
       (''popularity'', PInt 500)]]"

definition example_cleaned1 :: pydict where
  "example_cleaned1 =
     [(''movie_id'', PInt 1), (''release_date'', PStr ''2020-05-01''), (''budget'', PInt 0),
      (''revenue'', PInt 500), (''popularity'', PFloat (Fin 99)), (''vote_average'', PInt 0),
      (''vote_count'', PInt 0), (''runtime'', PInt 0),
      (''overview'', PStr ''No overview available''), (''tagline'', PStr []),
      (''genres'', PStr ''Unknown''), (''production_companies'', PStr ''Unknown''),
      (''spoken_languages'', PStr ''Unknown''), (''original_language'', PStr ''Unknown''),
      (''keywords'', PStr []), (''release_year'', PInt 2020), (''profit'', PInt 500),
      (''roi'', PFloat PosInf), (''popularity_category'', PStr ''Low'')]"

definition example_cleaned2 :: pydict where
  "example_cleaned2 =
     [(''movie_id'', PInt 2), (''release_date'', PStr []), (''budget'', PInt 100),
      (''revenue'', PInt 150), (''popularity'', PInt 100), (''vote_average'', PInt 0),
      (''vote_count'', PInt 0), (''runtime'', PInt 0),
      (''overview'', PStr ''No overview available''), (''tagline'', PStr []),
      (''genres'', PStr ''Unknown''), (''production_companies'', PStr ''Unknown''),
      (''spoken_languages'', PStr ''Unknown''), (''original_language'', PStr ''Unknown''),
      (''keywords'', PStr []), (''release_year'', PNone), (''profit'', PInt 50),
      (''roi'', PFloat (Fin (1 / 2))), (''popularity_category'', PStr ''Medium'')]"

definition example_cleaned3 :: pydict where
  "example_cleaned3 =
     [(''movie_id'', PInt 3), (''budget'', PFloat (Fin 50)), (''revenue'', PInt 0),
      (''popularity'', PInt 500), (''vote_average'', PInt 0), (''vote_count'', PInt 0),
      (''runtime'', PInt 0), (''overview'', PStr ''No overview available''),
      (''tagline'', PStr []), (''genres'', PStr ''Unknown''),
      (''production_companies'', PStr ''Unknown''), (''spoken_languages'', PStr ''Unknown''),
      (''original_language'', PStr ''Unknown''), (''keywords'', PStr []),
      (''release_year'', PNone), (''profit'', PFloat (Fin (- 50))), (''roi'', PFloat (Fin (- 1))),
      (''popularity_category'', PStr ''High'')]"

definition example_stats_movies :: "pydict list" where
  "example_stats_movies =
     [[(''budget'', PInt 4), (''vote_average'', PInt 1), (''popularity'', PInt 1)],
      [(''budget'', PInt 1), (''vote_average'', PFloat (Fin 2)), (''runtime'', PNone),
       (''popularity'', PInt 2)],
      [(''budget'', PInt 3), (''vote_average'', PInt 3), (''popularity'', PInt 2)],
      [(''budget'', PInt 2)]]"

section \<open>Notions used in the statements about the extraction\<close>

text \<open>
  The movies of one page as the \<^verbatim>\<open>try\<close> block of \<^verbatim>\<open>fetch_movies\<close> iterates them, when
  the request returns and its answer can be iterated.
\<close>

definition page_movies :: "(int \<Rightarrow> error + pyval) \<Rightarrow> int \<Rightarrow> pyval list option" where
  "page_movies api page =
     (case api page of
        Inr (PDict d) \<Rightarrow> py_iter (dget d ''results'' (PList []))
      | _ \<Rightarrow> None)"

text \<open>
  The key of a movie's \<^verbatim>\<open>id\<close>, a movie from which \<^verbatim>\<open>movie_element\<close> can be built (a
  dictionary with a hashable \<^verbatim>\<open>id\<close> and a \<^verbatim>\<open>title\<close>), and the record built from it.
\<close>

definition id_key :: "pyval \<Rightarrow> pykey option" where
  "id_key movie =
     (case movie of
        PDict m \<Rightarrow> (case map_of m ''id'' of None \<Rightarrow> None | Some i \<Rightarrow> key_of i)
      | _ \<Rightarrow> None)"

definition well_formed :: "pyval \<Rightarrow> bool" where
  "well_formed movie =
     (case movie of
        PDict m \<Rightarrow> id_key movie \<noteq> None \<and> map_of m ''title'' \<noteq> None
      | _ \<Rightarrow> False)"

definition element_of :: "(pyval \<Rightarrow> string) \<Rightarrow> pyval \<Rightarrow> pydict" where
  "element_of str_of movie =
     (case movie of
        PDict m \<Rightarrow> movie_element str_of (dget m ''id'' PNone) (dget m ''title'' PNone) m
      | _ \<Rightarrow> [])"

text \<open>
  The first occurrences of the identifiers in a list of movies, leaving out the
  identifiers already \<open>seen\<close>, and the set of identifiers of a list of movies.
\<close>

fun fresh :: "pykey list \<Rightarrow> pyval list \<Rightarrow> pyval list" where
  "fresh seen [] = []"
| "fresh seen (movie # rest) =
     (case id_key movie of
        None \<Rightarrow> fresh seen rest
      | Some k \<Rightarrow> if k \<in> set seen then fresh seen rest else movie # fresh (k # seen) rest)"

definition keys_of :: "pyval list \<Rightarrow> pykey set" where
  "keys_of ms = {k. \<exists>m\<in>set ms. id_key m = Some k}"

text \<open>Two pages that repeat identifiers within and across pages; a third request fails.\<close>

definition example_page1 :: "pyval list" where
  "example_page1 =
     [PDict [(''id'', PInt 1), (''title'', PStr ''A'')],
      PDict [(''id'', PInt 2), (''title'', PStr ''B'')],
      PDict [(''id'', PInt 1), (''title'', PStr ''A again'')]]"

definition example_page2 :: "pyval list" where
  "example_page2 =
     [PDict [(''id'', PInt 2), (''title'', PStr ''B again'')],
      PDict [(''id'', PInt 3), (''title'', PStr ''C''), (''vote_count'', PInt 7)]]"

definition example_api :: "int \<Rightarrow> error + pyval" where
  "example_api page =
     (if page = 1 then Inr (PDict [(''results'', PList example_page1)])
      else if page = 2 then Inr (PDict [(''results'', PList example_page2)])
      else Inl ApiError)"

definition example_listings :: "pydict list" where
  "example_listings =
     [[(''movie_id'', PInt 1), (''title'', PStr ''A''), (''release_date'', PStr []),
       (''vote_average'', PNone), (''vote_count'', PNone), (''popularity'', PNone),
       (''overview'', PStr ''No overview available''), (''poster_url'', PNone)],
      [(''movie_id'', PInt 2), (''title'', PStr ''B''), (''release_date'', PStr []),
       (''vote_average'', PNone), (''vote_count'', PNone), (''popularity'', PNone),
       (''overview'', PStr ''No overview available''), (''poster_url'', PNone)],
      [(''movie_id'', PInt 3), (''title'', PStr ''C''), (''release_date'', PStr []),
       (''vote_average'', PNone), (''vote_count'', PInt 7), (''popularity'', PNone),
       (''overview'', PStr ''No overview available''), (''poster_url'', PNone)]]"


text \<open>
  A run in which two pages are fetched, every detail request fails and the upload
  succeeds.
\<close>

definition example_services :: "services" where
  "example_services =
     \<lparr>py_str = (\<lambda>v. ''?''), py_float_of_str = (\<lambda>s. None),
      py_sorted_nan = (\<lambda>xs. xs), popular_page = example_api,
      movie_details = (\<lambda>v. Inl ApiError), today = ''2026-11-03'',
      csv_text = (\<lambda>rows. ''rows''), put_succeeds = (\<lambda>bucket key. True)\<rparr>"

section \<open>Generic lemmas\<close>

lemma mapM_imp_list_all2: "mapM f xs = Inr ys \<Longrightarrow> list_all2 (\<lambda>x y. f x = Inr y) xs ys"
  by (induction xs arbitrary: ys) (auto split: sum.splits)

lemma list_all2_imp_mapM: "list_all2 (\<lambda>x y. f x = Inr y) xs ys \<Longrightarrow> mapM f xs = Inr ys"
  by (induction xs ys rule: list_all2_induct) auto

lemma mapM_list_all2: "mapM f xs = Inr ys \<longleftrightarrow> list_all2 (\<lambda>x y. f x = Inr y) xs ys"
  using mapM_imp_list_all2 list_all2_imp_mapM by blast

lemma mapM_map: "(\<And>x. x \<in> set xs \<Longrightarrow> f x = Inr (g x)) \<Longrightarrow> mapM f xs = Inr (map g xs)"
  by (induction xs) auto

lemma mapM_length: "mapM f xs = Inr ys \<Longrightarrow> length ys = length xs"
  by (simp add: mapM_list_all2 list_all2_lengthD)

lemma set_firsts: "set (firsts seen ks) = set ks - set seen"
  by (induction ks arbitrary: seen) auto

lemma distinct_firsts: "distinct (firsts seen ks)"
  by (induction ks arbitrary: seen) (auto simp: set_firsts)

lemma remdups_snoc: "remdups (xs @ [k]) = filter (\<lambda>x. x \<noteq> k) (remdups xs) @ [k]"
  by (induction xs) auto

lemma rev_remdups_rev_Cons:
  "rev (remdups (rev (k # ks))) = k # filter (\<lambda>x. x \<noteq> k) (rev (remdups (rev ks)))"
  by (simp add: remdups_snoc rev_filter)

lemma firsts_filter: "firsts seen ks = filter (\<lambda>k. k \<notin> set seen) (rev (remdups (rev ks)))"
proof (induction ks arbitrary: seen)
  case Nil
  then show ?case by simp
next
  case (Cons k ks)
  have "filter (\<lambda>x. x \<notin> set seen) (filter (\<lambda>x. x \<noteq> k) (rev (remdups (rev ks))))
      = filter (\<lambda>x. x \<notin> set (k # seen)) (rev (remdups (rev ks)))"
    by (auto intro: filter_cong)
  with Cons show ?case
    by (simp only: rev_remdups_rev_Cons firsts.simps) (auto intro: filter_cong)
qed

lemma firsts_Nil: "firsts [] ks = rev (remdups (rev ks))"
  by (simp add: firsts_filter)

lemma length_firsts: "length (firsts [] ks) = card (set ks)"
  by (simp add: firsts_Nil length_remdups_card_conv)

lemma unique_loop_keys:
  "mapM movie_key ms = Inr ks \<Longrightarrow>
   \<exists>us. unique_loop seen ms = Inr us \<and> mapM movie_key us = Inr (firsts seen ks)"
proof (induction ms arbitrary: seen ks)
  case Nil
  then show ?case by auto
next
  case (Cons m ms)
  then obtain k ks' where k: "movie_key m = Inr k" and ks': "mapM movie_key ms = Inr ks'"
    and ks: "ks = k # ks'"
    by (auto split: sum.splits)
  show ?case
  proof (cases "k \<in> set seen")
    case True
    with Cons.IH [OF ks', of seen] k ks show ?thesis by auto
  next
    case False
    with Cons.IH [OF ks', of "k # seen"] k ks show ?thesis by auto
  qed
qed

lemma unique_loop_keys_ok:
  "unique_loop seen ms = Inr us \<Longrightarrow> \<exists>ks. mapM movie_key ms = Inr ks"
proof (induction ms arbitrary: seen us)
  case Nil
  then show ?case by auto
next
  case (Cons m ms)
  then show ?case
    by (fastforce split: sum.splits if_splits)
qed

lemma unique_loop_first:
  "unique_loop seen ms = Inr us \<Longrightarrow> u \<in> set us \<Longrightarrow> movie_key u = Inr k \<Longrightarrow>
   find (\<lambda>m. movie_key m = Inr k) ms = Some u"
proof (induction ms arbitrary: seen us)
  case Nil
  then show ?case by auto
next
  case (Cons m ms)
  from Cons.prems(1) obtain k0 where k0: "movie_key m = Inr k0"
    by (auto split: sum.splits)
  from Cons.prems(1) k0 obtain ks' where ks': "mapM movie_key ms = Inr ks'"
    using unique_loop_keys_ok by (fastforce split: sum.splits if_splits)
  show ?case
  proof (cases "k0 \<in> set seen")
    case True
    with Cons.prems k0 have ul: "unique_loop seen ms = Inr us" by simp
    from unique_loop_keys [OF ks', of seen] ul
    have "mapM movie_key us = Inr (firsts seen ks')" by auto
    then have "list_all2 (\<lambda>x y. movie_key x = Inr y) us (firsts seen ks')"
      by (simp add: mapM_list_all2)
    with Cons.prems(2,3) have "k \<in> set (firsts seen ks')"
      by (metis (mono_tags, lifting) Inr_inject in_set_conv_nth list_all2_conv_all_nth)
    with True have "k \<noteq> k0" by (auto simp: set_firsts)
    with Cons.IH [OF ul Cons.prems(2,3)] k0 show ?thesis by auto
  next
    case False
    with Cons.prems k0 obtain us' where ul: "unique_loop (k0 # seen) ms = Inr us'"
      and us: "us = m # us'"
      by (auto split: sum.splits)
    from unique_loop_keys [OF ks', of "k0 # seen"] ul
    have "mapM movie_key us' = Inr (firsts (k0 # seen) ks')" by auto
    then have la: "list_all2 (\<lambda>x y. movie_key x = Inr y) us' (firsts (k0 # seen) ks')"
      by (simp add: mapM_list_all2)
    show ?thesis
    proof (cases "k = k0")
      case True
      have "u \<notin> set us'"
      proof
        assume "u \<in> set us'"
        with la Cons.prems(3) have "k \<in> set (firsts (k0 # seen) ks')"
          by (metis (mono_tags, lifting) Inr_inject in_set_conv_nth list_all2_conv_all_nth)
        with True show False by (auto simp: set_firsts)
      qed
      with Cons.prems(2) us have "u = m" by auto
      with k0 True show ?thesis by simp
    next
      case False
      with Cons.prems(2,3) us k0 have "u \<in> set us'" by auto
      with Cons.IH [OF ul _ Cons.prems(3)] k0 False show ?thesis by auto
    qed
  qed
qed

section \<open>The enrichment computes the join of every selected listing\<close>

lemma map_of_rev_distinct: "distinct (map fst kvs) \<Longrightarrow> map_of (rev kvs) = map_of kvs"
proof (rule ext)
  fix x
  assume d: "distinct (map fst kvs)"
  then have d': "distinct (map fst (rev kvs))" by (simp add: rev_map [symmetric])
  show "map_of (rev kvs) x = map_of kvs x"
  proof (cases "map_of kvs x")
    case None
    then have "x \<notin> fst ` set kvs" by (simp add: map_of_eq_None_iff)
    then have "map_of (rev kvs) x = None" by (simp add: map_of_eq_None_iff)
    with None show ?thesis by simp
  next
    case (Some y)
    with d have "(x, y) \<in> set kvs" by simp
    then have "(x, y) \<in> set (rev kvs)" by simp
    with d' have "map_of (rev kvs) x = Some y" by (simp only: map_of_eq_Some_iff)
    with Some show ?thesis by simp
  qed
qed

lemma map_of_fold_update:
  "map_of (fold (\<lambda>(k, v). AList.update k v) kvs acc) = map_of acc ++ map_of (rev kvs)"
proof (induction kvs arbitrary: acc)
  case Nil
  then show ?case by simp
next
  case (Cons kv kvs)
  obtain k v where kv: "kv = (k, v)" by (cases kv)
  have "map_of (fold (\<lambda>(k, v). AList.update k v) (kv # kvs) acc)
      = map_of (AList.update k v acc) ++ map_of (rev kvs)"
    using Cons.IH [of "AList.update k v acc"] kv by simp
  also have "\<dots> = map_of acc ++ map_of (rev (kv # kvs))"
    by (simp add: kv update_conv' map_add_upd_left fun_eq_iff map_add_def split: option.splits)
  finally show ?case .
qed

lemma map_of_dict_merge: "map_of (dict_merge a b) = map_of a ++ map_of (rev b)"
  by (simp add: dict_merge_def map_of_fold_update)

lemma details_dict_fold:
  "mapM movie_key ds = Inr ks \<Longrightarrow> [] \<notin> set ds \<Longrightarrow>
   details_dict acc ds = Inr (fold (\<lambda>(k, d). AList.update k d) (zip ks ds) acc)"
proof (induction ds arbitrary: ks acc)
  case Nil
  then show ?case by simp
next
  case (Cons d ds)
  then show ?case by (auto split: sum.splits)
qed

lemma movie_key_Cons: "movie_key ((''movie_id'', v) # d) = (case key_of v of None \<Rightarrow> Inl TypeError | Some k \<Rightarrow> Inr k)"
  by (simp add: movie_key_def ditem_def)

lemma fetch_movie_details_shape:
  "\<exists>rest. fetch_movie_details str_of api v = (''movie_id'', v) # rest \<and> ''movie_id'' \<notin> fst ` set rest
     \<and> distinct (map fst rest)"
proof (cases "api v")
  case (Inl e)
  then show ?thesis by (simp add: fetch_movie_details_def)
next
  case (Inr movie)
  show ?thesis
  proof (cases "detail_fields str_of v movie")
    case None
    with Inr show ?thesis by (simp add: fetch_movie_details_def)
  next
    case (Some d)
    then obtain m g c l k where "d = detail_dict str_of v m g c l k"
      by (cases movie) (auto split: option.splits)
    with Inr Some show ?thesis
      by (simp add: fetch_movie_details_def detail_dict_def)
  qed
qed

lemma movie_key_fetch:
  "movie_key (fetch_movie_details str_of api v) = (case key_of v of None \<Rightarrow> Inl TypeError | Some k \<Rightarrow> Inr k)"
  using fetch_movie_details_shape [of str_of api v] by (auto simp: movie_key_Cons)

lemma fetch_not_Nil: "fetch_movie_details str_of api v \<noteq> []"
  using fetch_movie_details_shape [of str_of api v] by auto

lemma movie_key_ditem:
  "movie_key m = Inr k \<Longrightarrow> ditem m ''movie_id'' = Inr (dget m ''movie_id'' PNone)"
  by (auto simp: movie_key_def ditem_def dget_def split: option.splits sum.splits)

lemma movie_key_dget:
  "movie_key m = Inr k \<Longrightarrow> key_of (dget m ''movie_id'' PNone) = Some k"
  by (auto simp: movie_key_def ditem_def dget_def split: option.splits sum.splits)

lemma join_all:
  assumes keys: "mapM movie_key sel = Inr ks" and dist: "distinct ks"
    and w: "0 < max_workers"
  shows "\<exists>dd. details_dict [] (map (fetch_movie_details str_of api) (map (\<lambda>m. dget m ''movie_id'' PNone) sel)) = Inr dd
     \<and> mapM (join_movie dd) sel = Inr (map (enriched_record str_of api) sel)"
proof -
  let ?ids = "map (\<lambda>m. dget m ''movie_id'' PNone) sel"
  let ?ds = "map (fetch_movie_details str_of api) ?ids"
  from keys have la: "list_all2 (\<lambda>m k. movie_key m = Inr k) sel ks"
    by (rule mapM_imp_list_all2)
  then have len: "length ks = length sel" by (simp add: list_all2_lengthD)
  have "list_all2 (\<lambda>d k. movie_key d = Inr k) ?ds ks"
    unfolding list_all2_conv_all_nth
  proof (intro conjI allI impI)
    show "length ?ds = length ks" using len by simp
  next
    fix i assume "i < length ?ds"
    then have i: "i < length sel" by simp
    with la have "movie_key (sel ! i) = Inr (ks ! i)" by (simp add: list_all2_conv_all_nth)
    then have "key_of (dget (sel ! i) ''movie_id'' PNone) = Some (ks ! i)" by (rule movie_key_dget)
    with i show "movie_key (?ds ! i) = Inr (ks ! i)" by (simp add: movie_key_fetch)
  qed
  then have dk: "mapM movie_key ?ds = Inr ks" by (rule list_all2_imp_mapM)
  have ne: "[] \<notin> set ?ds"
  proof
    assume "[] \<in> set ?ds"
    then show False by (auto simp: fetch_not_Nil [symmetric])
  qed
  let ?dd = "fold (\<lambda>(k, d). AList.update k d) (zip ks ?ds) []"
  from details_dict_fold [OF dk ne] have dd: "details_dict [] ?ds = Inr ?dd" .
  have lookup: "map_of ?dd (ks ! i) = Some (?ds ! i)" if "i < length sel" for i
  proof -
    have "distinct (map fst (zip ks ?ds))" using dist len by simp
    then have "map_of ?dd = map_of (zip ks ?ds)"
      by (simp add: map_of_fold_update map_of_rev_distinct)
    moreover have "map_of (zip ks ?ds) (ks ! i) = Some (?ds ! i)"
      using len dist that by (intro map_of_zip_nth) auto
    ultimately show ?thesis by simp
  qed
  have "list_all2 (\<lambda>m r. join_movie ?dd m = Inr r) sel (map (enriched_record str_of api) sel)"
    unfolding list_all2_conv_all_nth
  proof (intro conjI allI impI)
    show "length sel = length (map (enriched_record str_of api) sel)" by simp
  next
    fix i assume i: "i < length sel"
    with la have k: "movie_key (sel ! i) = Inr (ks ! i)" by (simp add: list_all2_conv_all_nth)
    from lookup [OF i] i k
    show "join_movie ?dd (sel ! i) = Inr (map (enriched_record str_of api) sel ! i)"
      by (simp add: join_movie_def enriched_record_def)
  qed
  then have "mapM (join_movie ?dd) sel = Inr (map (enriched_record str_of api) sel)"
    by (rule list_all2_imp_mapM)
  with dd show ?thesis by blast
qed

lemma select_movies_keys:
  assumes "mapM movie_key us = Inr ks"
  shows "mapM movie_key (select_movies md us) = Inr (select_movies md ks)"
proof -
  from assms have la: "list_all2 (\<lambda>m k. movie_key m = Inr k) us ks" by (rule mapM_imp_list_all2)
  then have len: "length us = length ks" by (rule list_all2_lengthD)
  have "list_all2 (\<lambda>m k. movie_key m = Inr k) (select_movies md us) (select_movies md ks)"
    using la len by (auto simp: select_movies_def slice_to_def intro: list_all2_takeI split: option.splits)
  then show ?thesis by (rule list_all2_imp_mapM)
qed

lemma distinct_select: "distinct ks \<Longrightarrow> distinct (select_movies md ks)"
  by (auto simp: select_movies_def slice_to_def split: option.splits)

lemma enrich_eq:
  assumes ul: "unique_loop [] movies_list = Inr us" and w: "0 < max_workers"
  shows "enrich_movie_data_parallel str_of api movies_list max_details max_workers
       = Inr (map (enriched_record str_of api) (select_movies max_details us))"
proof -
  from unique_loop_keys_ok [OF ul] obtain ks where ks: "mapM movie_key movies_list = Inr ks" ..
  from unique_loop_keys [OF ks, of "[]"] ul
  have uk: "mapM movie_key us = Inr (firsts [] ks)" by auto
  let ?sel = "select_movies max_details us"
  have sk: "mapM movie_key ?sel = Inr (select_movies max_details (firsts [] ks))"
    using uk by (rule select_movies_keys)
  have dist: "distinct (select_movies max_details (firsts [] ks))"
    by (rule distinct_select) (rule distinct_firsts)
  have ids: "mapM (\<lambda>movie. ditem movie ''movie_id'') ?sel = Inr (map (\<lambda>m. dget m ''movie_id'' PNone) ?sel)"
  proof (rule mapM_map)
    fix m assume "m \<in> set ?sel"
    then obtain i where i: "i < length ?sel" and m: "m = ?sel ! i"
      by (auto simp: in_set_conv_nth)
    from mapM_imp_list_all2 [OF sk] i have "movie_key (?sel ! i) = Inr (select_movies max_details (firsts [] ks) ! i)"
      by (simp add: list_all2_conv_all_nth)
    with m obtain k where "movie_key m = Inr k" by simp
    then show "ditem m ''movie_id'' = Inr (dget m ''movie_id'' PNone)" by (rule movie_key_ditem)
  qed
  from join_all [OF sk dist w, of str_of api] obtain dd where
    dd: "details_dict [] (map (fetch_movie_details str_of api) (map (\<lambda>m. dget m ''movie_id'' PNone) ?sel)) = Inr dd"
    and j: "mapM (join_movie dd) ?sel = Inr (map (enriched_record str_of api) ?sel)"
    by blast
  show ?thesis
    using ul ids w dd j by (simp add: enrich_movie_data_parallel_def Let_def)
qed



lemma unique_loop_subset: "unique_loop seen ms = Inr us \<Longrightarrow> set us \<subseteq> set ms"
proof (induction ms arbitrary: seen us)
  case Nil
  then show ?case by simp
next
  case (Cons m ms)
  then show ?case by (fastforce split: sum.splits if_splits)
qed


lemma map_of_enriched_record:
  "map_of (enriched_record str_of api movie) k =
     (let detail = fetch_movie_details str_of api (dget movie ''movie_id'' PNone) in
      if k \<noteq> ''movie_id'' \<and> map_of detail k \<noteq> None then map_of detail k else map_of movie k)"
proof -
  let ?d = "fetch_movie_details str_of api (dget movie ''movie_id'' PNone)"
  from fetch_movie_details_shape [of str_of api "dget movie ''movie_id'' PNone"]
  have "distinct (map fst ?d)" by auto
  then have "distinct (map fst (AList.delete ''movie_id'' ?d))" by (rule distinct_delete)
  then have "map_of (rev (AList.delete ''movie_id'' ?d)) = map_of (AList.delete ''movie_id'' ?d)"
    by (rule map_of_rev_distinct)
  then show ?thesis
    by (auto simp: enriched_record_def map_of_dict_merge delete_conv' map_add_def Let_def
        split: option.splits)
qed

lemma movie_key_enriched: "movie_key (enriched_record str_of api movie) = movie_key movie"
  by (simp add: movie_key_def ditem_def map_of_enriched_record)

lemma slice_length:
  "length (select_movies md xs) =
     (case md of None \<Rightarrow> length xs
      | Some n \<Rightarrow> if 0 < n then min (nat n) (length xs)
                  else if n = 0 then length xs else length xs - nat (- n))"
  by (auto simp: select_movies_def slice_to_def split: option.splits)

lemma take_min_length: "take (min n (length xs)) xs = take n xs"
  by (simp add: min_def)

lemma slice_to_take_length:
  assumes "length xs = length ys"
  shows "slice_to k xs = take (length (slice_to k ys)) xs"
proof -
  have "slice_to k xs = take (min (if 0 \<le> k then nat k else nat (int (length xs) + k)) (length xs)) xs"
    by (simp only: take_min_length slice_to_def if_distrib [of "\<lambda>n. take n xs"])
  moreover have "length (slice_to k ys) = min (if 0 \<le> k then nat k else nat (int (length xs) + k)) (length xs)"
    using assms by (simp add: slice_to_def min.commute)
  ultimately show ?thesis by simp
qed

lemma select_movies_take_length:
  assumes "length xs = length ys"
  shows "select_movies md xs = take (length (map f (select_movies md ys))) xs"
proof (cases md)
  case None
  with assms show ?thesis by (simp add: select_movies_def)
next
  case (Some k)
  with assms slice_to_take_length [OF assms, of k] show ?thesis
    by (simp add: select_movies_def)
qed


section \<open>The fields of listings and of details\<close>









section \<open>Claims about the enrichment\<close>



text \<open>
  Claim C2, as amended. When every listing has a hashable identifier and the pool has a
  worker, \<^const>\<open>enrich_movie_data_parallel\<close> first keeps the first occurrence of each
  identifier, in input order. Its output has length \<open>min(maxDetails, n)\<close> for \<open>n\<close>
  distinct identifiers when \<open>maxDetails\<close> is positive, length \<open>n\<close> when \<open>maxDetails\<close> is
  unset or 0, and \<open>n + maxDetails\<close> (not below 0) when it is negative. The output holds
  the enriched records of the first that many first occurrences, in their order, so
  one record for each of their identifiers.
\<close>

theorem enrich_dedup_length_order:
  assumes "mapM movie_key movies_list = Inr ks" and "0 < max_workers"
  shows "\<exists>us out. unique_loop [] movies_list = Inr us
      \<and> mapM movie_key us = Inr (rev (remdups (rev ks)))
      \<and> (\<forall>u k. u \<in> set us \<and> movie_key u = Inr k
            \<longrightarrow> find (\<lambda>m. movie_key m = Inr k) movies_list = Some u)
      \<and> enrich_movie_data_parallel str_of api movies_list max_details max_workers = Inr out
      \<and> length out =
          (case max_details of
             None \<Rightarrow> card (set ks)
           | Some n \<Rightarrow> if 0 < n then min (nat n) (card (set ks))
                       else if n = 0 then card (set ks)
                       else card (set ks) - nat (- n))
      \<and> out = map (enriched_record str_of api) (take (length out) us)
      \<and> mapM movie_key out = Inr (take (length out) (rev (remdups (rev ks))))
      \<and> distinct (take (length out) (rev (remdups (rev ks))))"
proof -
  from unique_loop_keys [OF assms(1), of "[]"] obtain us where
    ul: "unique_loop [] movies_list = Inr us" and uk: "mapM movie_key us = Inr (firsts [] ks)"
    by blast
  let ?out = "map (enriched_record str_of api) (select_movies max_details us)"
  have e: "enrich_movie_data_parallel str_of api movies_list max_details max_workers = Inr ?out"
    using ul assms(2) by (rule enrich_eq)
  have lu: "length us = card (set ks)"
    using mapM_length [OF uk] by (simp add: length_firsts)
  have len: "length ?out =
          (case max_details of
             None \<Rightarrow> card (set ks)
           | Some n \<Rightarrow> if 0 < n then min (nat n) (card (set ks))
                       else if n = 0 then card (set ks)
                       else card (set ks) - nat (- n))"
    by (simp add: slice_length lu split: option.splits)
  have sel: "select_movies max_details xs = take (length ?out) xs" if "length xs = length us" for xs :: "'b list"
    using that by (rule select_movies_take_length)
  have o: "?out = map (enriched_record str_of api) (take (length ?out) us)"
    using sel [of us] by simp
  have "mapM movie_key (select_movies max_details us) = Inr (select_movies max_details (firsts [] ks))"
    using uk by (rule select_movies_keys)
  then have "list_all2 (\<lambda>m k. movie_key m = Inr k) (select_movies max_details us)
       (select_movies max_details (firsts [] ks))"
    by (rule mapM_imp_list_all2)
  then have "list_all2 (\<lambda>m k. movie_key m = Inr k) ?out (select_movies max_details (firsts [] ks))"
    by (simp add: list_all2_map1 movie_key_enriched)
  then have "mapM movie_key ?out = Inr (select_movies max_details (firsts [] ks))"
    by (rule list_all2_imp_mapM)
  moreover have "length (firsts [] ks) = length us" using mapM_length [OF uk] by simp
  ultimately have k: "mapM movie_key ?out = Inr (take (length ?out) (rev (remdups (rev ks))))"
    using sel [of "firsts [] ks"] by (simp add: firsts_Nil)
  have f: "\<forall>u k. u \<in> set us \<and> movie_key u = Inr k
            \<longrightarrow> find (\<lambda>m. movie_key m = Inr k) movies_list = Some u"
    using unique_loop_first [OF ul] by blast
  have d: "distinct (take (length ?out) (rev (remdups (rev ks))))" by simp
  from uk have uk': "mapM movie_key us = Inr (rev (remdups (rev ks)))"
    by (simp add: firsts_Nil)
  show ?thesis
    apply (rule exI [of _ us])
    apply (rule exI [of _ ?out])
    apply (intro conjI)
           apply (rule ul)
          apply (rule uk')
         apply (rule f)
        apply (rule e)
       apply (rule len)
      apply (rule o)
     apply (rule k)
    apply (rule d)
    done
qed

text \<open>
  With \<open>maxDetails\<close> set to 0 the slice is not taken: one listing gives one record,
  not \<open>min(0, 1)\<close> records.
\<close>

theorem enrich_max_details_zero_counterexample:
  "mapM movie_key [[(''movie_id'', PInt 1), (''title'', PStr ''A'')]] = Inr [KNum 1]
   \<and> enrich_movie_data_parallel (\<lambda>v. ''False'') (\<lambda>v. Inl ApiError)
        [[(''movie_id'', PInt 1), (''title'', PStr ''A'')]] (Some 0) 5
       = Inr [[(''movie_id'', PInt 1), (''title'', PStr ''A'')]]
   \<and> length [[(''movie_id'', PInt 1), (''title'', PStr ''A'')]] \<noteq> min 0 (card (set [KNum 1]))"
  by code_simp

theorem enrich_dedup_length_order_witness:
  "mapM movie_key
       [[(''movie_id'', PInt 1), (''title'', PStr ''A'')], [(''movie_id'', PInt 2), (''title'', PStr ''B'')],
        [(''movie_id'', PInt 1), (''title'', PStr ''C'')], [(''movie_id'', PInt 3), (''title'', PStr ''D'')]]
     = Inr [KNum 1, KNum 2, KNum 1, KNum 3]
   \<and> (0 :: int) < 5
   \<and> (\<exists>out. enrich_movie_data_parallel (\<lambda>v. ''False'') (\<lambda>v. Inl ApiError)
        [[(''movie_id'', PInt 1), (''title'', PStr ''A'')], [(''movie_id'', PInt 2), (''title'', PStr ''B'')],
        [(''movie_id'', PInt 1), (''title'', PStr ''C'')], [(''movie_id'', PInt 3), (''title'', PStr ''D'')]] (Some 2) 5 = Inr out
        \<and> length out = 2
        \<and> mapM movie_key out = Inr [KNum 1, KNum 2])"
proof -
  have h: "mapM movie_key
       [[(''movie_id'', PInt 1), (''title'', PStr ''A'')], [(''movie_id'', PInt 2), (''title'', PStr ''B'')],
        [(''movie_id'', PInt 1), (''title'', PStr ''C'')], [(''movie_id'', PInt 3), (''title'', PStr ''D'')]]
     = Inr [KNum 1, KNum 2, KNum 1, KNum 3]"
    by code_simp
  have w: "(0 :: int) < 5" by simp
  have c: "card (set [KNum 1, KNum 2, KNum 1, KNum 3]) = 3" by (simp add: card_insert_if)
  let ?ms = "[[(''movie_id'', PInt 1), (''title'', PStr ''A'')], [(''movie_id'', PInt 2), (''title'', PStr ''B'')],
        [(''movie_id'', PInt 1), (''title'', PStr ''C'')], [(''movie_id'', PInt 3), (''title'', PStr ''D'')]]"
  let ?ks = "[KNum 1, KNum 2, KNum 1, KNum 3]"
  from enrich_dedup_length_order [OF h w, of "\<lambda>v. ''False''" "\<lambda>v. Inl ApiError" "Some 2"]
  obtain us out where
    e: "enrich_movie_data_parallel (\<lambda>v. ''False'') (\<lambda>v. Inl ApiError) ?ms (Some 2) 5 = Inr out"
    and l: "length out =
          (case Some (2 :: int) of
             None \<Rightarrow> card (set ?ks)
           | Some n \<Rightarrow> if 0 < n then min (nat n) (card (set ?ks))
                       else if n = 0 then card (set ?ks)
                       else card (set ?ks) - nat (- n))"
    and k: "mapM movie_key out = Inr (take (length out) (rev (remdups (rev ?ks))))"
    by (elim exE conjE)
  from l c have l2: "length out = 2" by simp
  from k l2 have k2: "mapM movie_key out = Inr [KNum 1, KNum 2]" by simp
  from e l2 k2 have "\<exists>out. enrich_movie_data_parallel (\<lambda>v. ''False'') (\<lambda>v. Inl ApiError) ?ms (Some 2) 5 = Inr out
        \<and> length out = 2 \<and> mapM movie_key out = Inr [KNum 1, KNum 2]"
    by (intro exI [of _ out] conjI)
  with h w show ?thesis by (intro conjI)
qed

text \<open>
  Claim C6. When every listing has a hashable identifier and the pool has a worker, the
  enrichment returns a result whatever the requests do; a selected identifier whose
  detail fetch fails is answered by the stub that holds only that identifier, and the
  output record at its position is the listing itself, with no field added or changed.
\<close>

theorem enrich_failed_fetch_passes_listing:
  assumes "mapM movie_key movies_list = Inr ks" and "0 < max_workers"
  shows "\<exists>us out. unique_loop [] movies_list = Inr us
      \<and> enrich_movie_data_parallel str_of api movies_list max_details max_workers = Inr out
      \<and> length out = length (select_movies max_details us)
      \<and> (\<forall>i movie_id. i < length out
            \<and> map_of (select_movies max_details us ! i) ''movie_id'' = Some movie_id
            \<and> fetch_fails str_of api movie_id
          \<longrightarrow> fetch_movie_details str_of api movie_id = [(''movie_id'', movie_id)]
              \<and> out ! i = select_movies max_details us ! i)"
proof -
  from unique_loop_keys [OF assms(1), of "[]"] obtain us where
    ul: "unique_loop [] movies_list = Inr us" by blast
  let ?sel = "select_movies max_details us"
  let ?out = "map (enriched_record str_of api) ?sel"
  have e: "enrich_movie_data_parallel str_of api movies_list max_details max_workers = Inr ?out"
    using ul assms(2) by (rule enrich_eq)
  have "fetch_movie_details str_of api movie_id = [(''movie_id'', movie_id)] \<and> ?out ! i = ?sel ! i"
    if i: "i < length ?out" and mid: "map_of (?sel ! i) ''movie_id'' = Some movie_id"
      and ff: "fetch_fails str_of api movie_id" for i movie_id
  proof -
    from ff have stub: "fetch_movie_details str_of api movie_id = [(''movie_id'', movie_id)]"
      by (auto simp: fetch_fails_def fetch_movie_details_def split: sum.splits)
    from mid have "dget (?sel ! i) ''movie_id'' PNone = movie_id" by (simp add: dget_def)
    with stub have "enriched_record str_of api (?sel ! i) = ?sel ! i"
      by (simp add: enriched_record_def dict_merge_def AList.delete_eq)
    with i stub show ?thesis by simp
  qed
  then have a: "\<forall>i movie_id. i < length ?out
            \<and> map_of (?sel ! i) ''movie_id'' = Some movie_id
            \<and> fetch_fails str_of api movie_id
          \<longrightarrow> fetch_movie_details str_of api movie_id = [(''movie_id'', movie_id)]
              \<and> ?out ! i = ?sel ! i"
    by blast
  have l: "length ?out = length ?sel" by simp
  show ?thesis
    apply (rule exI [of _ us])
    apply (rule exI [of _ ?out])
    apply (intro conjI)
       apply (rule ul)
      apply (rule e)
     apply (rule l)
    apply (rule a)
    done
qed

theorem enrich_failed_fetch_passes_listing_witness:
  "mapM movie_key
       [[(''movie_id'', PInt 1), (''title'', PStr ''A'')], [(''movie_id'', PInt 2), (''title'', PStr ''B'')]]
     = Inr [KNum 1, KNum 2]
   \<and> (0 :: int) < 5
   \<and> fetch_fails (\<lambda>v. ''False'') (\<lambda>v. if v = PInt 1 then Inl ApiError else Inr (PDict [])) (PInt 1)
   \<and> (\<exists>out. enrich_movie_data_parallel (\<lambda>v. ''False'')
              (\<lambda>v. if v = PInt 1 then Inl ApiError else Inr (PDict []))
        [[(''movie_id'', PInt 1), (''title'', PStr ''A'')], [(''movie_id'', PInt 2), (''title'', PStr ''B'')]] None 5 = Inr out
        \<and> length out = 2
        \<and> out ! 0 = [(''movie_id'', PInt 1), (''title'', PStr ''A'')])"
proof -
  let ?api = "\<lambda>v. if v = PInt 1 then Inl ApiError else Inr (PDict [])"
  let ?ms = "[[(''movie_id'', PInt 1), (''title'', PStr ''A'')], [(''movie_id'', PInt 2), (''title'', PStr ''B'')]]"
  have h: "mapM movie_key ?ms = Inr [KNum 1, KNum 2]"
    by code_simp
  have w: "(0 :: int) < 5" by simp
  have f: "fetch_fails (\<lambda>v. ''False'') ?api (PInt 1)"
    by (simp add: fetch_fails_def)
  have u: "unique_loop [] ?ms = Inr ?ms"
    by code_simp
  from enrich_failed_fetch_passes_listing [OF h w, of "\<lambda>v. ''False''" ?api None]
  obtain us out where us: "unique_loop [] ?ms = Inr us"
    and out: "enrich_movie_data_parallel (\<lambda>v. ''False'') ?api ?ms None 5 = Inr out"
    and len: "length out = length (select_movies None us)"
    and pass: "\<forall>i movie_id. i < length out
            \<and> map_of (select_movies None us ! i) ''movie_id'' = Some movie_id
            \<and> fetch_fails (\<lambda>v. ''False'') ?api movie_id
          \<longrightarrow> fetch_movie_details (\<lambda>v. ''False'') ?api movie_id = [(''movie_id'', movie_id)]
              \<and> out ! i = select_movies None us ! i"
    by (elim exE conjE)
  from us u have us': "us = ?ms" by simp
  from len us' have l2: "length out = 2" by (simp add: select_movies_def)
  have m0: "map_of (select_movies None us ! 0) ''movie_id'' = Some (PInt 1)"
    using us' by (simp add: select_movies_def)
  from l2 have i0: "0 < length out" by simp
  from pass i0 m0 f
  have "out ! 0 = select_movies None us ! 0" by blast
  then have o0: "out ! 0 = [(''movie_id'', PInt 1), (''title'', PStr ''A'')]"
    using us' by (simp add: select_movies_def)
  from out l2 o0 have "\<exists>out. enrich_movie_data_parallel (\<lambda>v. ''False'') ?api ?ms None 5 = Inr out
        \<and> length out = 2 \<and> out ! 0 = [(''movie_id'', PInt 1), (''title'', PStr ''A'')]"
    by (intro exI [of _ out] conjI)
  with h w f show ?thesis by (intro conjI)
qed

section \<open>Lemmas about the statistics and the cleaning of one movie\<close>

lemma impute_Inr:
  "impute stats f m = Inr m' \<Longrightarrow> m' = AList.update f (imputed stats m f) m"
  by (auto simp: impute_def imputed_def ditem_def dget_def split: if_splits option.splits)

lemma impute_all_map_of:
  "impute_all stats feats m = Inr m' \<Longrightarrow>
   map_of m' k = (if k \<in> set feats then Some (imputed stats m k) else map_of m k)"
proof (induction feats arbitrary: m)
  case Nil
  then show ?case by simp
next
  case (Cons f feats)
  from Cons.prems obtain m1 where m1: "impute stats f m = Inr m1"
    and rest: "impute_all stats feats m1 = Inr m'"
    by (auto split: sum.splits)
  from impute_Inr [OF m1] have m1': "m1 = AList.update f (imputed stats m f) m" .
  have same: "imputed stats m1 k = imputed stats m k" if "k \<noteq> f" for k
    using that by (simp add: m1' imputed_def dget_def update_conv')
  have idem: "imputed stats m1 f = imputed stats m f"
    by (simp add: m1' imputed_def dget_def update_conv')
  from Cons.IH [OF rest] show ?case
    by (cases "k = f") (auto simp: same idem, simp_all add: m1' update_conv')
qed

lemma impute_all_fixed:
  "(\<And>f. f \<in> set feats \<Longrightarrow> \<exists>v. map_of m f = Some v \<and> v \<noteq> PNone) \<Longrightarrow>
   impute_all stats feats m = Inr m"
proof (induction feats)
  case Nil
  then show ?case by simp
next
  case (Cons f feats)
  from Cons.prems [of f] obtain v where v: "map_of m f = Some v" "v \<noteq> PNone" by auto
  then have "impute stats f m = Inr m"
    by (simp add: impute_def dget_def update_triv)
  moreover have "impute_all stats feats m = Inr m"
    by (rule Cons.IH) (simp add: Cons.prems)
  ultimately show ?case by simp
qed

lemma map_of_setdefault:
  "map_of (setdefault k v d) k' = (if k' = k \<and> map_of d k = None then Some v else map_of d k')"
  by (auto simp: setdefault_def update_conv' split: option.splits)

lemma setdefault_fixed: "map_of d k \<noteq> None \<Longrightarrow> setdefault k v d = d"
  by (auto simp: setdefault_def split: option.splits)

lemma map_of_fill_defaults_other:
  "k \<notin> set default_keys \<Longrightarrow> map_of (fill_defaults m) k = map_of m k"
  by (simp add: fill_defaults_def default_keys_def map_of_setdefault)

lemma map_of_fill_defaults_present:
  "k \<in> set default_keys \<Longrightarrow> map_of (fill_defaults m) k \<noteq> None"
  by (auto simp: fill_defaults_def default_keys_def map_of_setdefault)

lemma setdefault_keep: "map_of d k = Some v \<Longrightarrow> map_of (setdefault k' v' d) k = Some v"
  by (auto simp: map_of_setdefault)

lemma map_of_fill_defaults_keep:
  "map_of m k = Some v \<Longrightarrow> map_of (fill_defaults m) k = Some v"
  unfolding fill_defaults_def by (intro setdefault_keep)

lemma fill_defaults_fixed:
  "(\<And>k. k \<in> set default_keys \<Longrightarrow> map_of m k \<noteq> None) \<Longrightarrow> fill_defaults m = m"
  by (simp add: fill_defaults_def default_keys_def setdefault_fixed)

lemma derive_features_Inr:
  "derive_features m0 = Inr m' \<longleftrightarrow>
     (\<exists>revenue budget profit roi popularity category.
        map_of m0 ''revenue'' = Some revenue \<and> map_of m0 ''budget'' = Some budget
      \<and> py_sub revenue budget = Inr profit \<and> roi_of budget revenue = Inr roi
      \<and> map_of m0 ''popularity'' = Some popularity
      \<and> popularity_category popularity = Inr category
      \<and> m' = derived m0 profit roi category)"
  by (auto simp: derive_features_def derived_def Let_def ditem_def update_conv'
      split: sum.splits option.splits)

lemma map_of_derived:
  "map_of (derived m0 profit roi category) k =
     (if k = ''popularity_category'' then Some category
      else if k = ''roi'' then Some roi
      else if k = ''profit'' then Some profit
      else if k = ''release_year'' then Some (release_year_of m0)
      else map_of m0 k)"
  by (simp add: derived_def update_conv')

lemma release_year_of_cong:
  "map_of m ''release_date'' = map_of m' ''release_date'' \<Longrightarrow> release_year_of m = release_year_of m'"
  by (simp add: release_year_of_def)

lemma derive_features_idem:
  assumes "derive_features m0 = Inr m'"
  shows "derive_features m' = Inr m'"
proof -
  from assms obtain revenue budget profit roi popularity category where
    r: "map_of m0 ''revenue'' = Some revenue" and b: "map_of m0 ''budget'' = Some budget"
    and p: "py_sub revenue budget = Inr profit" and ro: "roi_of budget revenue = Inr roi"
    and po: "map_of m0 ''popularity'' = Some popularity"
    and c: "popularity_category popularity = Inr category"
    and m': "m' = derived m0 profit roi category"
    unfolding derive_features_Inr by blast
  have ry: "release_year_of m' = release_year_of m0"
    by (rule release_year_of_cong) (simp add: m' map_of_derived)
  have "derived m' profit roi category = m'"
    unfolding derived_def [of m'] ry
    by (simp add: update_triv m' map_of_derived)
  moreover have "map_of m' ''revenue'' = Some revenue" "map_of m' ''budget'' = Some budget"
    "map_of m' ''popularity'' = Some popularity"
    using r b po by (simp_all add: m' map_of_derived)
  ultimately show ?thesis
    unfolding derive_features_Inr using p ro c by metis
qed

lemma floatable_flt: "floatable fs v \<Longrightarrow> py_float fs v = Inr (flt fs v)"
  by (auto simp: floatable_def flt_def split: sum.splits)

lemma collect_features_Inr:
  "collect_features fs m vals feats = Inr vals' \<Longrightarrow> distinct feats \<Longrightarrow>
   vals' f = vals f @ (if f \<in> set feats then map (flt fs) (obs1 m f) else [])"
proof (induction feats arbitrary: vals)
  case Nil
  then show ?case by simp
next
  case (Cons g feats)
  show ?case
  proof (cases "obs1 m g")
    case Nil
    with Cons.prems have "collect_features fs m vals feats = Inr vals'"
      by (auto simp: obs1_def split: option.splits if_splits)
    from Cons.IH [OF this] Cons.prems(2) Nil show ?thesis by auto
  next
    case (Cons v vs)
    then have v: "map_of m g = Some v" "v \<noteq> PNone" "vs = []"
      by (auto simp: obs1_def split: option.splits if_splits)
    with Cons.prems(1) obtain x where x: "py_float fs v = Inr x"
      and rest: "collect_features fs m (vals(g := vals g @ [x])) feats = Inr vals'"
      by (auto split: sum.splits)
    from x have fx: "flt fs v = x" by (simp add: flt_def)
    from Cons.IH [OF rest] Cons.prems(2) Cons v fx show ?thesis by auto
  qed
qed

lemma collect_features_floatable:
  "collect_features fs m vals feats = Inr vals' \<Longrightarrow> f \<in> set feats \<Longrightarrow> v \<in> set (obs1 m f) \<Longrightarrow>
   floatable fs v"
proof (induction feats arbitrary: vals)
  case Nil
  then show ?case by simp
next
  case (Cons g feats)
  show ?case
  proof (cases "obs1 m g")
    case Nil
    with Cons.prems(1) have r: "collect_features fs m vals feats = Inr vals'"
      by (auto simp: obs1_def split: option.splits if_splits)
    from Cons.prems(2,3) Nil have "f \<in> set feats" by auto
    from Cons.IH [OF r this Cons.prems(3)] show ?thesis .
  next
    case (Cons w ws)
    then have w: "map_of m g = Some w" "w \<noteq> PNone" "ws = []"
      by (auto simp: obs1_def split: option.splits if_splits)
    with Cons.prems(1) obtain x where x: "py_float fs w = Inr x"
      and rest: "collect_features fs m (vals(g := vals g @ [x])) feats = Inr vals'"
      by (auto split: sum.splits)
    show ?thesis
    proof (cases "f = g")
      case True
      with Cons.prems(3) Cons w have "v = w" by simp
      with x show ?thesis by (simp add: floatable_def)
    next
      case False
      with Cons.prems(2) have "f \<in> set feats" by simp
      from Cons.IH [OF rest this Cons.prems(3)] show ?thesis .
    qed
  qed
qed

lemma collect_features_succeeds:
  "(\<And>f v. f \<in> set feats \<Longrightarrow> v \<in> set (obs1 m f) \<Longrightarrow> floatable fs v) \<Longrightarrow>
   \<exists>vals'. collect_features fs m vals feats = Inr vals'"
proof (induction feats arbitrary: vals)
  case Nil
  then show ?case by simp
next
  case (Cons g feats)
  have ih: "\<exists>vals'. collect_features fs m vals0 feats = Inr vals'" for vals0
    by (rule Cons.IH) (auto intro: Cons.prems)
  show ?case
  proof (cases "obs1 m g")
    case Nil
    then have "collect_features fs m vals (g # feats) = collect_features fs m vals feats"
      by (auto simp: obs1_def split: option.splits if_splits)
    with ih show ?thesis by simp
  next
    case (Cons w ws)
    then have w: "map_of m g = Some w" "w \<noteq> PNone"
      by (auto simp: obs1_def split: option.splits if_splits)
    from Cons have "w \<in> set (obs1 m g)" by simp
    then have "floatable fs w" by (intro Cons.prems) simp_all
    then have "py_float fs w = Inr (flt fs w)" by (rule floatable_flt)
    with w have "collect_features fs m vals (g # feats)
        = collect_features fs m (vals(g := vals g @ [flt fs w])) feats"
      by simp
    with ih show ?thesis by simp
  qed
qed

lemma distinct_numerical_features: "distinct numerical_features"
  by (simp add: numerical_features_def)

lemma collect_values_Inr:
  "collect_values fs vals ms = Inr vals' \<Longrightarrow> f \<in> set numerical_features \<Longrightarrow>
   vals' f = vals f @ map (flt fs) (observed ms f)"
proof (induction ms arbitrary: vals)
  case Nil
  then show ?case by (simp add: observed_def)
next
  case (Cons m ms)
  from Cons.prems(1) obtain vals1 where
    one: "collect_features fs m vals numerical_features = Inr vals1"
    and rest: "collect_values fs vals1 ms = Inr vals'"
    by (auto split: sum.splits)
  from collect_features_Inr [OF one distinct_numerical_features, of f] Cons.prems(2)
  have "vals1 f = vals f @ map (flt fs) (obs1 m f)" by simp
  with Cons.IH [OF rest Cons.prems(2)] show ?case by (simp add: observed_def)
qed

lemma collect_values_floatable:
  "collect_values fs vals ms = Inr vals' \<Longrightarrow> f \<in> set numerical_features \<Longrightarrow>
   v \<in> set (observed ms f) \<Longrightarrow> floatable fs v"
proof (induction ms arbitrary: vals)
  case Nil
  then show ?case by (simp add: observed_def)
next
  case (Cons m ms)
  from Cons.prems(1) obtain vals1 where
    one: "collect_features fs m vals numerical_features = Inr vals1"
    and rest: "collect_values fs vals1 ms = Inr vals'"
    by (auto split: sum.splits)
  from Cons.prems(3) have "v \<in> set (obs1 m f) \<or> v \<in> set (observed ms f)"
    by (auto simp: observed_def)
  then show ?case
  proof
    assume "v \<in> set (obs1 m f)"
    with one Cons.prems(2) show ?thesis by (rule collect_features_floatable)
  next
    assume "v \<in> set (observed ms f)"
    with rest Cons.prems(2) show ?thesis by (rule Cons.IH)
  qed
qed

lemma collect_values_succeeds:
  "(\<And>m f v. m \<in> set ms \<Longrightarrow> f \<in> set numerical_features \<Longrightarrow> v \<in> set (obs1 m f) \<Longrightarrow> floatable fs v)
   \<Longrightarrow> \<exists>vals'. collect_values fs vals ms = Inr vals'"
proof (induction ms arbitrary: vals)
  case Nil
  then show ?case by simp
next
  case (Cons m ms)
  have "\<exists>vals1. collect_features fs m vals numerical_features = Inr vals1"
    by (rule collect_features_succeeds) (auto intro: Cons.prems)
  then obtain vals1 where one: "collect_features fs m vals numerical_features = Inr vals1" ..
  have "\<exists>vals'. collect_values fs vals1 ms = Inr vals'"
    by (rule Cons.IH) (auto intro: Cons.prems)
  with one show ?case by simp
qed

lemma float_div_two: "float_div a (Fin 2) = Inr (fdiv a (Fin 2))"
  by (simp add: float_div_def)

lemma float_div_length:
  "xs \<noteq> [] \<Longrightarrow> float_div a (Fin (of_nat (length xs))) = Inr (fdiv a (Fin (of_nat (length xs))))"
  by (simp add: float_div_def)

lemma median_nonempty:
  "xs \<noteq> [] \<Longrightarrow> median sn xs =
     Inr (if even (length xs)
          then fdiv (fadd (py_sorted sn xs ! (length xs div 2 - 1))
                          (py_sorted sn xs ! (length xs div 2))) (Fin 2)
          else py_sorted sn xs ! (length xs div 2))"
  by (simp add: median_def Let_def float_div_two even_iff_mod_2_eq_zero)

lemma mean_nonempty:
  "xs \<noteq> [] \<Longrightarrow> mean xs =
     Inr (if list_all is_finite xs
          then round_double (sum_list (map fin_val xs) / of_nat (length xs))
          else fdiv (foldl fadd (Fin 0) (filter (\<lambda>x. \<not> is_finite x) xs))
                 (Fin (of_nat (length xs))))"
  by (simp add: mean_def float_div_length)

lemma feature_stat_eq: "feature_stat sn vals f = Inr (stat_value sn (vals f) f)"
proof (cases "vals f = []")
  case True
  then show ?thesis by (simp add: feature_stat_def stat_value_def)
next
  case False
  show ?thesis
  proof (cases "f \<in> set [''budget'', ''revenue'', ''vote_count'']")
    case True
    then have "f \<in> {''budget'', ''revenue'', ''vote_count''}" by simp
    with True False median_nonempty [OF False, of sn] show ?thesis
      by (simp only: feature_stat_def stat_value_def if_True if_False not_False_eq_True
          sum.case)
  next
    case f: False
    then have "f \<notin> {''budget'', ''revenue'', ''vote_count''}" by simp
    with f False mean_nonempty [OF False] show ?thesis
      by (simp only: feature_stat_def stat_value_def if_True if_False not_False_eq_True
          sum.case)
  qed
qed

lemma stats_loop_eq:
  "stats_loop sn vals feats = Inr (map (\<lambda>f. (f, stat_value sn (vals f) f)) feats)"
  by (induction feats) (simp_all add: feature_stat_eq)

lemma calculate_statistics_Inr:
  assumes "calculate_statistics fs sn ms = Inr stats" and "f \<in> set numerical_features"
  shows "map_of stats f = Some (stat_value sn (map (flt fs) (observed ms f)) f)"
proof -
  from assms(1) obtain vals where c: "collect_values fs (\<lambda>feature. []) ms = Inr vals"
    and s: "stats_loop sn vals numerical_features = Inr stats"
    by (auto simp: calculate_statistics_def split: sum.splits)
  from collect_values_Inr [OF c assms(2)] have v: "vals f = map (flt fs) (observed ms f)" by simp
  from s have "stats = map (\<lambda>f. (f, stat_value sn (vals f) f)) numerical_features"
    by (simp add: stats_loop_eq)
  then have "map_of stats f = Some (stat_value sn (vals f) f)"
    using assms(2) by (simp add: map_of_map_restrict restrict_map_def)
  with v show ?thesis by simp
qed

lemma calculate_statistics_floatable:
  assumes "calculate_statistics fs sn ms = Inr stats" and "f \<in> set numerical_features"
    and "v \<in> set (observed ms f)"
  shows "floatable fs v"
proof -
  from assms(1) obtain vals where c: "collect_values fs (\<lambda>feature. []) ms = Inr vals"
    by (auto simp: calculate_statistics_def split: sum.splits)
  from c assms(2,3) show ?thesis by (rule collect_values_floatable)
qed

lemma calculate_statistics_succeeds:
  assumes "\<And>m f v. m \<in> set ms \<Longrightarrow> f \<in> set numerical_features \<Longrightarrow> v \<in> set (obs1 m f) \<Longrightarrow> floatable fs v"
  shows "\<exists>stats. calculate_statistics fs sn ms = Inr stats"
proof -
  from collect_values_succeeds [of ms fs "\<lambda>feature. []"] assms
  obtain vals where "collect_values fs (\<lambda>feature. []) ms = Inr vals" by blast
  then show ?thesis by (simp add: calculate_statistics_def stats_loop_eq)
qed

lemma round_double_zero: "round_double 0 = Fin 0"
  by (simp add: round_double_def)

lemma stat_value_floatable: "floatable fs (stat_value sn xs f)"
  by (simp add: stat_value_def floatable_def to_float_def round_double_zero)

lemma stat_value_not_None: "stat_value sn xs f \<noteq> PNone"
  by (simp add: stat_value_def)

lemma mapM_result_member:
  "mapM f xs = Inr ys \<Longrightarrow> y \<in> set ys \<Longrightarrow> \<exists>x\<in>set xs. f x = Inr y"
proof (induction xs arbitrary: ys)
  case Nil
  then show ?case by simp
next
  case (Cons x xs)
  then show ?case by (fastforce split: sum.splits)
qed

lemma unique_loop_fixed:
  "mapM movie_key us = Inr ks \<Longrightarrow> distinct ks \<Longrightarrow> set ks \<inter> set seen = {} \<Longrightarrow>
   unique_loop seen us = Inr us"
proof (induction us arbitrary: ks seen)
  case Nil
  then show ?case by simp
next
  case (Cons u us)
  from Cons.prems(1) obtain k ks' where k: "movie_key u = Inr k"
    and ks': "mapM movie_key us = Inr ks'" and ks: "ks = k # ks'"
    by (auto split: sum.splits)
  from Cons.prems(2,3) ks have "distinct ks'" "set ks' \<inter> set (k # seen) = {}" "k \<notin> set seen"
    by auto
  with Cons.IH [OF ks'] k show ?case by simp
qed

lemma clean_member:
  assumes "clean_transform_data fs sn ms = Inr out" and "m' \<in> set out"
  shows "\<exists>stats m. calculate_statistics fs sn ms = Inr stats \<and> m \<in> set ms
           \<and> clean_movie stats m = Inr m'"
proof -
  from assms have ne: "ms \<noteq> []" by (auto simp: clean_transform_data_def)
  with assms(1) obtain stats cleaned where st: "calculate_statistics fs sn ms = Inr stats"
    and cl: "mapM (clean_movie stats) ms = Inr cleaned"
    and ul: "unique_loop [] cleaned = Inr out"
    by (auto simp: clean_transform_data_def split: sum.splits)
  from unique_loop_subset [OF ul] assms(2) have "m' \<in> set cleaned" by blast
  from mapM_result_member [OF cl this] obtain m where "m \<in> set ms" "clean_movie stats m = Inr m'"
    by blast
  with st show ?thesis by blast
qed

lemma clean_movie_D:
  assumes "clean_movie stats m = Inr m'"
  shows "\<exists>imp revenue budget profit roi popularity category.
       impute_all stats numerical_features m = Inr imp
     \<and> map_of imp ''revenue'' = Some revenue \<and> map_of imp ''budget'' = Some budget
     \<and> py_sub revenue budget = Inr profit \<and> roi_of budget revenue = Inr roi
     \<and> map_of imp ''popularity'' = Some popularity
     \<and> popularity_category popularity = Inr category
     \<and> m' = derived (fill_defaults imp) profit roi category"
proof -
  from assms obtain imp where imp: "impute_all stats numerical_features m = Inr imp"
    and d: "derive_features (fill_defaults imp) = Inr m'"
    by (auto simp: clean_movie_def split: sum.splits)
  from d obtain revenue budget profit roi popularity category where
    r: "map_of (fill_defaults imp) ''revenue'' = Some revenue"
    and b: "map_of (fill_defaults imp) ''budget'' = Some budget"
    and p: "py_sub revenue budget = Inr profit" and ro: "roi_of budget revenue = Inr roi"
    and po: "map_of (fill_defaults imp) ''popularity'' = Some popularity"
    and c: "popularity_category popularity = Inr category"
    and m': "m' = derived (fill_defaults imp) profit roi category"
    unfolding derive_features_Inr by blast
  from r b po have "map_of imp ''revenue'' = Some revenue" "map_of imp ''budget'' = Some budget"
    "map_of imp ''popularity'' = Some popularity"
    by (simp_all add: map_of_fill_defaults_other default_keys_def)
  with imp p ro c m' show ?thesis by blast
qed

lemma clean_movie_feature:
  assumes "clean_movie stats m = Inr m'" and "f \<in> set numerical_features"
  shows "map_of m' f = Some (imputed stats m f)"
proof -
  from clean_movie_D [OF assms(1)] obtain imp profit roi category where
    imp: "impute_all stats numerical_features m = Inr imp"
    and m': "m' = derived (fill_defaults imp) profit roi category"
    by blast
  from assms(2) have nd: "f \<notin> set default_keys"
    and nk: "f \<noteq> ''popularity_category''" "f \<noteq> ''roi''" "f \<noteq> ''profit''" "f \<noteq> ''release_year''"
    by (auto simp: numerical_features_def default_keys_def)
  from nk have "map_of m' f = map_of (fill_defaults imp) f" by (simp add: m' map_of_derived)
  also from nd have "\<dots> = map_of imp f" by (rule map_of_fill_defaults_other)
  also from impute_all_map_of [OF imp] assms(2) have "\<dots> = Some (imputed stats m f)" by simp
  finally show ?thesis .
qed

lemma clean_movie_other:
  assumes "clean_movie stats m = Inr m'" and "k \<notin> set touched_keys"
  shows "map_of m' k = map_of m k"
proof -
  from clean_movie_D [OF assms(1)] obtain imp profit roi category where
    imp: "impute_all stats numerical_features m = Inr imp"
    and m': "m' = derived (fill_defaults imp) profit roi category"
    by blast
  from assms(2) have nd: "k \<notin> set default_keys" and nf: "k \<notin> set numerical_features"
    and nk: "k \<noteq> ''popularity_category''" "k \<noteq> ''roi''" "k \<noteq> ''profit''" "k \<noteq> ''release_year''"
    by (auto simp: touched_keys_def)
  from nk have "map_of m' k = map_of (fill_defaults imp) k" by (simp add: m' map_of_derived)
  also from nd have "\<dots> = map_of imp k" by (rule map_of_fill_defaults_other)
  also from impute_all_map_of [OF imp] nf have "\<dots> = map_of m k" by simp
  finally show ?thesis .
qed


lemma clean_movie_defaults:
  assumes "clean_movie stats m = Inr m'" and "k \<in> set default_keys"
  shows "map_of m' k \<noteq> None"
proof -
  from clean_movie_D [OF assms(1)] obtain imp profit roi category where
    m': "m' = derived (fill_defaults imp) profit roi category"
    by blast
  from assms(2) have nk: "k \<noteq> ''popularity_category''" "k \<noteq> ''roi''" "k \<noteq> ''profit''" "k \<noteq> ''release_year''"
    by (auto simp: default_keys_def)
  then have "map_of m' k = map_of (fill_defaults imp) k" by (simp add: m' map_of_derived)
  with map_of_fill_defaults_present [OF assms(2)] show ?thesis by simp
qed

lemma clean_movie_idem:
  assumes c: "clean_movie stats m = Inr m'"
    and nn: "\<And>f. f \<in> set numerical_features \<Longrightarrow> imputed stats m f \<noteq> PNone"
  shows "clean_movie stats' m' = Inr m'"
proof -
  from c obtain imp where imp: "impute_all stats numerical_features m = Inr imp"
    and d: "derive_features (fill_defaults imp) = Inr m'"
    by (auto simp: clean_movie_def split: sum.splits)
  have i: "impute_all stats' numerical_features m' = Inr m'"
  proof (rule impute_all_fixed)
    fix f assume f: "f \<in> set numerical_features"
    from clean_movie_feature [OF c f] nn [OF f]
    show "\<exists>v. map_of m' f = Some v \<and> v \<noteq> PNone" by simp
  qed
  have fd: "fill_defaults m' = m'"
    by (rule fill_defaults_fixed) (rule clean_movie_defaults [OF c])
  from derive_features_idem [OF d] have "derive_features m' = Inr m'" .
  with i fd show ?thesis by (simp add: clean_movie_def)
qed

lemma imputed_cases:
  "imputed stats m f = (case map_of m f of None \<Rightarrow> dget stats f PNone
     | Some v \<Rightarrow> if v \<noteq> PNone then v else dget stats f PNone)"
  by (simp add: imputed_def dget_def split: option.splits)

lemma imputed_obs:
  "imputed stats m f \<in> set (obs1 m f) \<or> imputed stats m f = dget stats f PNone"
  by (auto simp: imputed_cases obs1_def split: option.splits)

lemma obs1_observed: "m \<in> set ms \<Longrightarrow> set (obs1 m f) \<subseteq> set (observed ms f)"
  by (auto simp: observed_def)

lemma stats_dget:
  assumes "calculate_statistics fs sn ms = Inr stats" and "f \<in> set numerical_features"
  shows "dget stats f PNone = stat_value sn (map (flt fs) (observed ms f)) f"
  using calculate_statistics_Inr [OF assms] by (simp add: dget_def)

lemma imputed_floatable:
  assumes st: "calculate_statistics fs sn ms = Inr stats" and m: "m \<in> set ms"
    and f: "f \<in> set numerical_features"
  shows "floatable fs (imputed stats m f) \<and> imputed stats m f \<noteq> PNone"
proof -
  from imputed_obs [of stats m f] show ?thesis
  proof
    assume a: "imputed stats m f \<in> set (obs1 m f)"
    with obs1_observed [OF m, of f] have "imputed stats m f \<in> set (observed ms f)" by blast
    with st f have "floatable fs (imputed stats m f)" by (rule calculate_statistics_floatable)
    moreover from a have "imputed stats m f \<noteq> PNone"
      by (auto simp: obs1_def split: option.splits if_splits)
    ultimately show ?thesis by simp
  next
    assume "imputed stats m f = dget stats f PNone"
    with stats_dget [OF st f] show ?thesis
      by (simp add: stat_value_floatable stat_value_not_None)
  qed
qed




section \<open>Claims about the statistics and the cleaning\<close>

text \<open>
  Claim C9. The cleaning is idempotent: whenever \<^const>\<open>clean_transform_data\<close> returns a
  list of records, cleaning that list again returns the same list. The second run
  computes its statistics from the cleaned records, but it uses none of them, since no
  numeric field is missing any more.
\<close>

theorem clean_idempotent:
  assumes "clean_transform_data fs sn rs = Inr out"
  shows "clean_transform_data fs sn out = Inr out"
proof (cases "out = []")
  case True
  then show ?thesis by (simp add: clean_transform_data_def)
next
  case False
  with assms have ne: "rs \<noteq> []" by (auto simp: clean_transform_data_def)
  with assms obtain stats cleaned where st: "calculate_statistics fs sn rs = Inr stats"
    and cl: "mapM (clean_movie stats) rs = Inr cleaned"
    and ul: "unique_loop [] cleaned = Inr out"
    by (auto simp: clean_transform_data_def split: sum.splits)
  have src: "\<exists>m. m \<in> set rs \<and> clean_movie stats m = Inr m'" if "m' \<in> set out" for m'
  proof -
    from unique_loop_subset [OF ul] that have "m' \<in> set cleaned" by blast
    from mapM_result_member [OF cl this] show ?thesis by blast
  qed
  have "\<exists>stats'. calculate_statistics fs sn out = Inr stats'"
  proof (rule calculate_statistics_succeeds)
    fix m' f v
    assume m': "m' \<in> set out" and f: "f \<in> set numerical_features" and v: "v \<in> set (obs1 m' f)"
    from src [OF m'] obtain m where m: "m \<in> set rs" and c: "clean_movie stats m = Inr m'" by blast
    from clean_movie_feature [OF c f] v have "v = imputed stats m f"
      by (auto simp: obs1_def split: if_splits)
    with imputed_floatable [OF st m f] show "floatable fs v" by simp
  qed
  then obtain stats' where st': "calculate_statistics fs sn out = Inr stats'" ..
  have "mapM (clean_movie stats') out = Inr (map (\<lambda>m. m) out)"
  proof (rule mapM_map)
    fix m' assume m': "m' \<in> set out"
    from src [OF m'] obtain m where m: "m \<in> set rs" and c: "clean_movie stats m = Inr m'" by blast
    show "clean_movie stats' m' = Inr m'"
      using c by (rule clean_movie_idem) (simp add: imputed_floatable [OF st m])
  qed
  then have cl': "mapM (clean_movie stats') out = Inr out" by simp
  from unique_loop_keys_ok [OF ul] obtain ks where ks: "mapM movie_key cleaned = Inr ks" ..
  from unique_loop_keys [OF ks, of "[]"] ul have "mapM movie_key out = Inr (firsts [] ks)" by auto
  then have "unique_loop [] out = Inr out"
    by (rule unique_loop_fixed) (simp_all add: distinct_firsts)
  with False st' cl' show ?thesis by (simp add: clean_transform_data_def)
qed

theorem clean_idempotent_witness:
  "clean_transform_data (\<lambda>s. None) (\<lambda>xs. xs) example_movies = Inr [example_cleaned1, example_cleaned2, example_cleaned3]
   \<and> clean_transform_data (\<lambda>s. None) (\<lambda>xs. xs) [example_cleaned1, example_cleaned2, example_cleaned3]
       = Inr [example_cleaned1, example_cleaned2, example_cleaned3]"
proof -
  have e: "clean_transform_data (\<lambda>s. None) (\<lambda>xs. xs) example_movies = Inr [example_cleaned1, example_cleaned2, example_cleaned3]"
    by code_simp
  from e clean_idempotent [OF e] show ?thesis by (intro conjI)
qed

lemma roi_of_value:
  assumes b: "as_num budget = Some b" and r: "as_num revenue = Some r"
    and ro: "roi_of budget revenue = Inr roi"
  shows "if num_gt b 0
         then (case (r, b) of
                 (NInt i, NInt j) \<Rightarrow> roi = PFloat (round_double (of_int (i - j) / of_int j))
               | _ \<Rightarrow> \<exists>x y. num_float r = Inr x \<and> num_float b = Inr y
                          \<and> roi = PFloat (fdiv (fsub x y) y))
         else roi = (if is_zero revenue then PInt 0 else PFloat PosInf)"
proof (cases "num_gt b 0")
  case False
  with ro b show ?thesis by (simp add: roi_of_def py_gt_def)
next
  case True
  with ro b r obtain d where d: "num_sub r b = Inr d" and q: "py_truediv d budget = Inr roi"
    by (auto simp: roi_of_def py_gt_def py_sub_def split: sum.splits)
  show ?thesis
  proof (cases r)
    case ri: (NInt i)
    show ?thesis
    proof (cases b)
      case (NInt j)
      with ri d q b True show ?thesis
        by (auto simp: py_truediv_def split: pyfloat.splits if_splits)
    next
      case (NFlt y)
      with ri d q b True show ?thesis
        by (auto simp: py_truediv_def float_div_def split: sum.splits if_splits)
    qed
  next
    case rf: (NFlt x)
    show ?thesis
    proof (cases b)
      case (NInt j)
      with rf d q b True show ?thesis
        by (auto simp: py_truediv_def float_div_def split: sum.splits if_splits)
    next
      case (NFlt y)
      with rf d q b True show ?thesis
        by (auto simp: py_truediv_def float_div_def split: sum.splits if_splits)
    qed
  qed
qed

lemma clean_movie_roi:
  assumes "clean_movie stats m = Inr m'"
  shows "\<exists>budget revenue b r roi.
       map_of m' ''budget'' = Some budget \<and> map_of m' ''revenue'' = Some revenue
     \<and> as_num budget = Some b \<and> as_num revenue = Some r
     \<and> map_of m' ''roi'' = Some roi
     \<and> (if num_gt b 0
        then (case (r, b) of
                (NInt i, NInt j) \<Rightarrow> roi = PFloat (round_double (of_int (i - j) / of_int j))
              | _ \<Rightarrow> \<exists>x y. num_float r = Inr x \<and> num_float b = Inr y
                         \<and> roi = PFloat (fdiv (fsub x y) y))
        else roi = (if is_zero revenue then PInt 0 else PFloat PosInf))"
proof -
  from clean_movie_D [OF assms] obtain imp revenue budget profit roi popularity category where
    imp: "impute_all stats numerical_features m = Inr imp"
    and r: "map_of imp ''revenue'' = Some revenue" and b: "map_of imp ''budget'' = Some budget"
    and p: "py_sub revenue budget = Inr profit" and ro: "roi_of budget revenue = Inr roi"
    and m': "m' = derived (fill_defaults imp) profit roi category"
    by blast
  from p obtain nr nb where nr: "as_num revenue = Some nr" and nb: "as_num budget = Some nb"
    by (auto simp: py_sub_def split: option.splits)
  have mb: "map_of m' ''budget'' = Some budget" and mr: "map_of m' ''revenue'' = Some revenue"
    using r b by (simp_all add: m' map_of_derived map_of_fill_defaults_keep)
  have mo: "map_of m' ''roi'' = Some roi" by (simp add: m' map_of_derived)
  from mb mr nb nr mo roi_of_value [OF nb nr ro] show ?thesis
    by (intro exI [of _ budget] exI [of _ revenue] exI [of _ nb] exI [of _ nr] exI [of _ roi]
        conjI)
qed

text \<open>
  Claim C5. In every record the cleaning returns, \<^verbatim>\<open>budget\<close> and \<^verbatim>\<open>revenue\<close> are numbers
  (the imputed values), and \<^verbatim>\<open>roi\<close> is the value of \<^verbatim>\<open>(revenue - budget) / budget\<close> when
  \<^verbatim>\<open>budget > 0\<close>: for two integers the exact quotient rounded to the nearest double, and
  otherwise the float quotient of the float difference by the budget as a float. When
  \<^verbatim>\<open>budget > 0\<close> is false, \<^verbatim>\<open>roi\<close> is the integer 0 for a revenue equal to 0 and
  positive infinity for any other revenue, whatever its sign. A budget of 100 with a
  revenue of 150 gives 0.5, and a budget of 3 with a revenue of 4 gives the double
  nearest to one third.
\<close>

theorem clean_roi:
  assumes "clean_transform_data fs sn ms = Inr out" and "m' \<in> set out"
  shows "\<exists>budget revenue b r roi.
       map_of m' ''budget'' = Some budget \<and> map_of m' ''revenue'' = Some revenue
     \<and> as_num budget = Some b \<and> as_num revenue = Some r
     \<and> map_of m' ''roi'' = Some roi
     \<and> (if num_gt b 0
        then (case (r, b) of
                (NInt i, NInt j) \<Rightarrow> roi = PFloat (round_double (of_int (i - j) / of_int j))
              | _ \<Rightarrow> \<exists>x y. num_float r = Inr x \<and> num_float b = Inr y
                         \<and> roi = PFloat (fdiv (fsub x y) y))
        else roi = (if is_zero revenue then PInt 0 else PFloat PosInf))"
proof -
  from clean_member [OF assms] obtain stats m where "clean_movie stats m = Inr m'" by blast
  then show ?thesis by (rule clean_movie_roi)
qed

theorem clean_roi_witness:
  "clean_transform_data (\<lambda>s. None) (\<lambda>xs. xs) example_movies
     = Inr [example_cleaned1, example_cleaned2, example_cleaned3]
   \<and> example_cleaned2 \<in> set [example_cleaned1, example_cleaned2, example_cleaned3]
   \<and> (\<exists>budget revenue b r roi.
         map_of example_cleaned2 ''budget'' = Some budget
       \<and> map_of example_cleaned2 ''revenue'' = Some revenue
       \<and> as_num budget = Some b \<and> as_num revenue = Some r
       \<and> map_of example_cleaned2 ''roi'' = Some roi
       \<and> (if num_gt b 0
          then (case (r, b) of
                  (NInt i, NInt j) \<Rightarrow> roi = PFloat (round_double (of_int (i - j) / of_int j))
                | _ \<Rightarrow> \<exists>x y. num_float r = Inr x \<and> num_float b = Inr y
                           \<and> roi = PFloat (fdiv (fsub x y) y))
          else roi = (if is_zero revenue then PInt 0 else PFloat PosInf)))
   \<and> map_of example_cleaned2 ''roi'' = Some (PFloat (Fin (1 / 2)))
   \<and> map_of example_cleaned1 ''roi'' = Some (PFloat PosInf)
   \<and> roi_of (PInt 0) (PInt 0) = Inr (PInt 0)
   \<and> roi_of (PInt 0) (PInt 500) = Inr (PFloat PosInf)
   \<and> roi_of (PInt 0) (PInt (- 500)) = Inr (PFloat PosInf)
   \<and> roi_of (PInt 100) (PInt 150) = Inr (PFloat (Fin (1 / 2)))
   \<and> roi_of (PInt 3) (PInt 4) = Inr (PFloat (Fin (6004799503160661 / 18014398509481984)))
   \<and> roi_of (PFloat (Fin 3)) (PInt 4) = Inr (PFloat (Fin (6004799503160661 / 18014398509481984)))"
proof -
  have e: "clean_transform_data (\<lambda>s. None) (\<lambda>xs. xs) example_movies
     = Inr [example_cleaned1, example_cleaned2, example_cleaned3]"
    by code_simp
  have m: "example_cleaned2 \<in> set [example_cleaned1, example_cleaned2, example_cleaned3]"
    by simp
  have r2: "map_of example_cleaned2 ''roi'' = Some (PFloat (Fin (1 / 2)))"
    by (simp add: example_cleaned2_def)
  have r1: "map_of example_cleaned1 ''roi'' = Some (PFloat PosInf)"
    by (simp add: example_cleaned1_def)
  have x1: "roi_of (PInt 0) (PInt 0) = Inr (PInt 0)"
    by code_simp
  have x2: "roi_of (PInt 0) (PInt 500) = Inr (PFloat PosInf)"
    by code_simp
  have x3: "roi_of (PInt 0) (PInt (- 500)) = Inr (PFloat PosInf)"
    by code_simp
  have x4: "roi_of (PInt 100) (PInt 150) = Inr (PFloat (Fin (1 / 2)))"
    by code_simp
  have x5: "roi_of (PInt 3) (PInt 4)
      = Inr (PFloat (Fin (6004799503160661 / 18014398509481984)))"
    by code_simp
  have x6: "roi_of (PFloat (Fin 3)) (PInt 4)
      = Inr (PFloat (Fin (6004799503160661 / 18014398509481984)))"
    by code_simp
  from e m clean_roi [OF e m] r2 r1 x1 x2 x3 x4 x5 x6 show ?thesis by (intro conjI)
qed

text \<open>
  Claim C3. Every record the cleaning returns comes from a record of the input with the
  same identifier, and for each of the six numeric fields: a value that is present and
  not \<^verbatim>\<open>None\<close> in the input record, 0 and negative numbers included, is the value of the
  cleaned record; a field that is absent or \<^verbatim>\<open>None\<close> gets the field's statistic.
\<close>

theorem clean_keeps_present_values:
  assumes "clean_transform_data fs sn ms = Inr out" and "m' \<in> set out"
  shows "\<exists>m stats. m \<in> set ms \<and> calculate_statistics fs sn ms = Inr stats
     \<and> map_of m' ''movie_id'' = map_of m ''movie_id''
     \<and> (\<forall>f. f \<in> set numerical_features \<longrightarrow>
          (\<forall>v. map_of m f = Some v \<and> v \<noteq> PNone \<longrightarrow> map_of m' f = Some v)
        \<and> (map_of m f = None \<or> map_of m f = Some PNone
             \<longrightarrow> map_of m' f = map_of stats f \<and> map_of stats f \<noteq> None))"
proof -
  from clean_member [OF assms] obtain stats m where st: "calculate_statistics fs sn ms = Inr stats"
    and m: "m \<in> set ms" and c: "clean_movie stats m = Inr m'"
    by blast
  have id: "map_of m' ''movie_id'' = map_of m ''movie_id''"
    using c by (rule clean_movie_other)
      (simp add: touched_keys_def numerical_features_def default_keys_def)
  have "(\<forall>v. map_of m f = Some v \<and> v \<noteq> PNone \<longrightarrow> map_of m' f = Some v)
        \<and> (map_of m f = None \<or> map_of m f = Some PNone
             \<longrightarrow> map_of m' f = map_of stats f \<and> map_of stats f \<noteq> None)"
    if f: "f \<in> set numerical_features" for f
  proof -
    from calculate_statistics_Inr [OF st f] obtain s where s: "map_of stats f = Some s" by blast
    from clean_movie_feature [OF c f] s show ?thesis
      by (auto simp: imputed_cases dget_def)
  qed
  with m st id show ?thesis by blast
qed

theorem clean_keeps_present_values_witness:
  "clean_transform_data (\<lambda>s. None) (\<lambda>xs. xs) example_movies = Inr [example_cleaned1, example_cleaned2, example_cleaned3]
   \<and> example_cleaned3 \<in> set [example_cleaned1, example_cleaned2, example_cleaned3]
   \<and> (\<exists>m stats. m \<in> set example_movies
       \<and> calculate_statistics (\<lambda>s. None) (\<lambda>xs. xs) example_movies = Inr stats
       \<and> map_of example_cleaned3 ''movie_id'' = map_of m ''movie_id''
       \<and> (\<forall>f. f \<in> set numerical_features \<longrightarrow>
            (\<forall>v. map_of m f = Some v \<and> v \<noteq> PNone \<longrightarrow> map_of example_cleaned3 f = Some v)
          \<and> (map_of m f = None \<or> map_of m f = Some PNone
               \<longrightarrow> map_of example_cleaned3 f = map_of stats f \<and> map_of stats f \<noteq> None)))
   \<and> map_of (example_movies ! 0) ''budget'' = Some (PInt 0)
   \<and> map_of example_cleaned1 ''budget'' = Some (PInt 0)
   \<and> map_of (example_movies ! 2) ''budget'' = Some PNone
   \<and> map_of example_cleaned3 ''budget'' = Some (PFloat (Fin 50))"
proof -
  have e: "clean_transform_data (\<lambda>s. None) (\<lambda>xs. xs) example_movies = Inr [example_cleaned1, example_cleaned2, example_cleaned3]"
    by code_simp
  have m: "example_cleaned3 \<in> set [example_cleaned1, example_cleaned2, example_cleaned3]"
    by simp
  have x1: "map_of (example_movies ! 0) ''budget'' = Some (PInt 0)"
    and x2: "map_of example_cleaned1 ''budget'' = Some (PInt 0)"
    and x3: "map_of (example_movies ! 2) ''budget'' = Some PNone"
    and x4: "map_of example_cleaned3 ''budget'' = Some (PFloat (Fin 50))"
    by (simp_all add: example_movies_def example_cleaned1_def example_cleaned3_def)
  from e m clean_keeps_present_values [OF e m] x1 x2 x3 x4 show ?thesis by (intro conjI)
qed



text \<open>
  Claim C4. When \<^const>\<open>calculate_statistics\<close> returns, the statistic of each of the six
  features is computed from the floats of all its values that are present and not
  \<^verbatim>\<open>None\<close>: it is exactly the integer 0 when there is no such value, the median for
  \<^verbatim>\<open>budget\<close>, \<^verbatim>\<open>revenue\<close> and \<^verbatim>\<open>vote_count\<close> (the middle value of the sorted values, and for
  an even number of values the float average \<^verbatim>\<open>(a + b) / 2\<close> of the two middle values),
  and the arithmetic mean for the others (for finite values their exact sum divided by
  their number, rounded once to a double). The median of 1, 2, 3, 4 is 2.5 and the mean
  of 1, 2, 3 is 2.0.
\<close>

theorem calculate_statistics_values:
  assumes "calculate_statistics fs sn ms = Inr stats" and "f \<in> set numerical_features"
  shows "\<exists>xs. mapM (py_float fs) (observed ms f) = Inr xs
     \<and> map_of stats f =
         Some (if xs = [] then PInt 0
               else if f \<in> {''budget'', ''revenue'', ''vote_count''}
               then PFloat (if even (length xs)
                            then fdiv (fadd (py_sorted sn xs ! (length xs div 2 - 1))
                                            (py_sorted sn xs ! (length xs div 2))) (Fin 2)
                            else py_sorted sn xs ! (length xs div 2))
               else PFloat (if list_all is_finite xs
                            then round_double (sum_list (map fin_val xs) / of_nat (length xs))
                            else fdiv (foldl fadd (Fin 0) (filter (\<lambda>x. \<not> is_finite x) xs))
                                   (Fin (of_nat (length xs)))))
     \<and> median sn [Fin 1, Fin 2, Fin 3, Fin 4] = Inr (Fin (5 / 2))
     \<and> mean [Fin 1, Fin 2, Fin 3] = Inr (Fin 2)"
proof -
  have s: "py_sorted sn [Fin 1, Fin 2, Fin 3, Fin 4] = [Fin 1, Fin 2, Fin 3, Fin 4]"
    by (simp add: py_sorted_def fkey_def)
  have "fadd (Fin 2) (Fin 3) = Fin 5" by code_simp
  moreover have "fdiv (Fin 5) (Fin 2) = Fin (5 / 2)" by code_simp
  ultimately have ex1: "median sn [Fin 1, Fin 2, Fin 3, Fin 4] = Inr (Fin (5 / 2))"
    by (simp add: median_def Let_def s float_div_two)
  have ex2: "mean [Fin 1, Fin 2, Fin 3] = Inr (Fin 2)"
    by code_simp
  have "mapM (py_float fs) (observed ms f) = Inr (map (flt fs) (observed ms f))"
  proof (rule mapM_map)
    fix v assume "v \<in> set (observed ms f)"
    with assms have "floatable fs v" by (rule calculate_statistics_floatable)
    then show "py_float fs v = Inr (flt fs v)" by (rule floatable_flt)
  qed
  moreover from calculate_statistics_Inr [OF assms]
  have "map_of stats f = Some (stat_value sn (map (flt fs) (observed ms f)) f)" .
  ultimately show ?thesis
    unfolding stat_value_def using ex1 ex2
    by (intro exI [of _ "map (flt fs) (observed ms f)"] conjI)
qed

theorem calculate_statistics_values_witness:
  "calculate_statistics (\<lambda>s. None) (\<lambda>xs. xs) example_stats_movies
     = Inr [(''vote_average'', PFloat (Fin 2)), (''vote_count'', PInt 0),
            (''popularity'', PFloat (Fin (7505999378950827 / 4503599627370496))),
            (''runtime'', PInt 0), (''budget'', PFloat (Fin (5 / 2))), (''revenue'', PInt 0)]
   \<and> ''budget'' \<in> set numerical_features
   \<and> (\<exists>xs. mapM (py_float (\<lambda>s. None)) (observed example_stats_movies ''budget'') = Inr xs
       \<and> map_of [(''vote_average'', PFloat (Fin 2)), (''vote_count'', PInt 0),
            (''popularity'', PFloat (Fin (7505999378950827 / 4503599627370496))),
            (''runtime'', PInt 0), (''budget'', PFloat (Fin (5 / 2))), (''revenue'', PInt 0)]
            ''budget'' =
           Some (if xs = [] then PInt 0
                 else if ''budget'' \<in> {''budget'', ''revenue'', ''vote_count''}
                 then PFloat (if even (length xs)
                              then fdiv (fadd (py_sorted (\<lambda>xs. xs) xs ! (length xs div 2 - 1))
                                              (py_sorted (\<lambda>xs. xs) xs ! (length xs div 2))) (Fin 2)
                              else py_sorted (\<lambda>xs. xs) xs ! (length xs div 2))
                 else PFloat (if list_all is_finite xs
                              then round_double (sum_list (map fin_val xs) / of_nat (length xs))
                              else fdiv (foldl fadd (Fin 0) (filter (\<lambda>x. \<not> is_finite x) xs))
                                     (Fin (of_nat (length xs)))))
       \<and> median (\<lambda>xs. xs) [Fin 1, Fin 2, Fin 3, Fin 4] = Inr (Fin (5 / 2))
       \<and> mean [Fin 1, Fin 2, Fin 3] = Inr (Fin 2))
   \<and> mapM (py_float (\<lambda>s. None)) (observed example_stats_movies ''budget'')
       = Inr [Fin 4, Fin 1, Fin 3, Fin 2]
   \<and> mapM (py_float (\<lambda>s. None)) (observed example_stats_movies ''vote_average'')
       = Inr [Fin 1, Fin 2, Fin 3]
   \<and> mapM (py_float (\<lambda>s. None)) (observed example_stats_movies ''popularity'')
       = Inr [Fin 1, Fin 2, Fin 2]
   \<and> observed example_stats_movies ''runtime'' = []"
proof -
  have e: "calculate_statistics (\<lambda>s. None) (\<lambda>xs. xs) example_stats_movies
     = Inr [(''vote_average'', PFloat (Fin 2)), (''vote_count'', PInt 0),
            (''popularity'', PFloat (Fin (7505999378950827 / 4503599627370496))),
            (''runtime'', PInt 0), (''budget'', PFloat (Fin (5 / 2))), (''revenue'', PInt 0)]"
    by code_simp
  have f: "''budget'' \<in> set numerical_features"
    by (simp add: numerical_features_def)
  have x1: "mapM (py_float (\<lambda>s. None)) (observed example_stats_movies ''budget'')
       = Inr [Fin 4, Fin 1, Fin 3, Fin 2]"
    by code_simp
  have x2: "mapM (py_float (\<lambda>s. None)) (observed example_stats_movies ''vote_average'')
       = Inr [Fin 1, Fin 2, Fin 3]"
    by code_simp
  have x3: "mapM (py_float (\<lambda>s. None)) (observed example_stats_movies ''popularity'')
       = Inr [Fin 1, Fin 2, Fin 2]"
    by code_simp
  have x4: "observed example_stats_movies ''runtime'' = []"
    by (simp add: observed_def obs1_def example_stats_movies_def)
  from e f calculate_statistics_values [OF e f] x1 x2 x3 x4 show ?thesis by (intro conjI)
qed

section \<open>The extraction keeps the first occurrence of each identifier\<close>

lemma fresh_cong: "set seen = set seen' \<Longrightarrow> fresh seen ms = fresh seen' ms"
proof (induction ms arbitrary: seen seen')
  case Nil
  then show ?case by simp
next
  case (Cons m ms)
  show ?case
  proof (cases "id_key m")
    case None
    with Cons.IH [OF Cons.prems] show ?thesis by simp
  next
    case (Some k)
    from Cons.prems have "set (k # seen) = set (k # seen')" by simp
    from Cons.IH [OF this] Cons.IH [OF Cons.prems] Cons.prems Some show ?thesis by simp
  qed
qed

lemma keys_of_Nil: "keys_of [] = {}"
  by (simp add: keys_of_def)

lemma keys_of_Cons:
  "keys_of (m # ms) = (case id_key m of None \<Rightarrow> {} | Some k \<Rightarrow> {k}) \<union> keys_of ms"
  by (auto simp: keys_of_def split: option.splits)

lemma fresh_append:
  "set seen2 = set seen \<union> keys_of xs \<Longrightarrow> fresh seen (xs @ ys) = fresh seen xs @ fresh seen2 ys"
proof (induction xs arbitrary: seen)
  case Nil
  then show ?case by (simp add: keys_of_Nil fresh_cong [of seen2 seen])
next
  case (Cons x xs)
  show ?case
  proof (cases "id_key x")
    case None
    with Cons.prems have "set seen2 = set seen \<union> keys_of xs" by (simp add: keys_of_Cons)
    from Cons.IH [OF this] None show ?thesis by simp
  next
    case (Some k)
    with Cons.prems have s: "set seen2 = set (k # seen) \<union> keys_of xs"
      by (auto simp: keys_of_Cons)
    show ?thesis
    proof (cases "k \<in> set seen")
      case True
      with s have "set seen2 = set seen \<union> keys_of xs" by auto
      from Cons.IH [OF this] Some True show ?thesis by simp
    next
      case False
      from Cons.IH [OF s] Some False show ?thesis by simp
    qed
  qed
qed

lemma page_loop_well_formed:
  "list_all well_formed ms \<Longrightarrow>
   \<exists>seen'. page_loop str_of seen ms = (seen', map (element_of str_of) (fresh seen ms), None)
      \<and> set seen' = set seen \<union> keys_of ms"
proof (induction ms arbitrary: seen)
  case Nil
  then show ?case by (simp add: keys_of_Nil)
next
  case (Cons mv ms)
  from Cons.prems have wf: "well_formed mv" and rest: "list_all well_formed ms" by simp_all
  from wf obtain m i t k where mv: "mv = PDict m" and i: "map_of m ''id'' = Some i"
    and t: "map_of m ''title'' = Some t" and k: "key_of i = Some k"
    by (auto simp: well_formed_def id_key_def split: pyval.splits option.splits)
  have idk: "id_key (PDict m) = Some k" by (simp add: id_key_def i k)
  show ?case
  proof (cases "k \<in> set seen")
    case True
    from Cons.IH [OF rest, of seen] obtain seen' where
      "page_loop str_of seen ms = (seen', map (element_of str_of) (fresh seen ms), None)"
      "set seen' = set seen \<union> keys_of ms" by blast
    with True show ?thesis
      by (auto simp: mv ditem_def i k idk keys_of_Cons)
  next
    case False
    from Cons.IH [OF rest, of "k # seen"] obtain seen' where
      "page_loop str_of (k # seen) ms = (seen', map (element_of str_of) (fresh (k # seen) ms), None)"
      "set seen' = set (k # seen) \<union> keys_of ms" by blast
    with False show ?thesis
      by (auto simp: mv ditem_def i t k idk keys_of_Cons element_of_def dget_def)
  qed
qed

lemma fetch_pages_well_formed:
  "map (page_movies api) ps = map Some pages \<Longrightarrow> list_all well_formed (concat pages) \<Longrightarrow>
   fetch_pages str_of api seen acc ps
     = Inr (acc @ map (element_of str_of) (fresh seen (concat pages)))"
proof (induction ps arbitrary: seen acc pages)
  case Nil
  then show ?case by simp
next
  case (Cons p ps)
  from Cons.prems(1) obtain ms pages' where pages: "pages = ms # pages'"
    and pm: "page_movies api p = Some ms" and rest: "map (page_movies api) ps = map Some pages'"
    by (cases pages) auto
  from Cons.prems(2) pages have wf: "list_all well_formed ms"
    and wf': "list_all well_formed (concat pages')" by simp_all
  from pm have tp: "try_page str_of api seen p = page_loop str_of seen ms"
    by (auto simp: page_movies_def try_page_def split: sum.splits pyval.splits option.splits)
  from page_loop_well_formed [OF wf, of str_of seen] obtain seen' where
    pl: "page_loop str_of seen ms = (seen', map (element_of str_of) (fresh seen ms), None)"
    and s: "set seen' = set seen \<union> keys_of ms" by blast
  from Cons.IH [OF rest wf', of seen' "acc @ map (element_of str_of) (fresh seen ms)"]
    fresh_append [OF s, of "concat pages'"]
  show ?case by (simp add: tp pl pages)
qed

lemma id_keys_fresh:
  "map id_key ms = map Some ks \<Longrightarrow> map id_key (fresh seen ms) = map Some (firsts seen ks)"
proof (induction ms arbitrary: seen ks)
  case Nil
  then show ?case by simp
next
  case (Cons m ms)
  then obtain k ks' where "ks = k # ks'" "id_key m = Some k" "map id_key ms = map Some ks'"
    by (cases ks) auto
  with Cons.IH [of ks'] show ?case by simp
qed

lemma fresh_keys_not_seen:
  "movie \<in> set (fresh seen ms) \<Longrightarrow> \<exists>k. id_key movie = Some k \<and> k \<notin> set seen"
proof (induction ms arbitrary: seen)
  case Nil
  then show ?case by simp
next
  case (Cons m ms)
  then show ?case by (fastforce split: option.splits if_splits)
qed

lemma fresh_first:
  "movie \<in> set (fresh seen ms) \<Longrightarrow> find (\<lambda>mv. id_key mv = id_key movie) ms = Some movie"
proof (induction ms arbitrary: seen)
  case Nil
  then show ?case by simp
next
  case (Cons m ms)
  show ?case
  proof (cases "id_key m")
    case None
    with Cons.prems have mem: "movie \<in> set (fresh seen ms)" by simp
    from fresh_keys_not_seen [OF mem] None have "id_key m \<noteq> id_key movie" by auto
    with Cons.IH [OF mem] show ?thesis by simp
  next
    case (Some k)
    show ?thesis
    proof (cases "k \<in> set seen")
      case True
      with Cons.prems Some have mem: "movie \<in> set (fresh seen ms)" by simp
      from fresh_keys_not_seen [OF mem] Some True have "id_key m \<noteq> id_key movie" by auto
      with Cons.IH [OF mem] show ?thesis by simp
    next
      case False
      with Cons.prems Some have "movie = m \<or> movie \<in> set (fresh (k # seen) ms)" by simp
      then show ?thesis
      proof
        assume "movie = m"
        then show ?thesis by simp
      next
        assume mem: "movie \<in> set (fresh (k # seen) ms)"
        from fresh_keys_not_seen [OF mem] Some have "id_key m \<noteq> id_key movie" by auto
        with Cons.IH [OF mem] show ?thesis by simp
      qed
    qed
  qed
qed

lemma movie_key_element_of:
  "well_formed movie \<Longrightarrow> id_key movie = Some k \<Longrightarrow> movie_key (element_of str_of movie) = Inr k"
  by (auto simp: well_formed_def id_key_def element_of_def movie_element_def movie_key_def
      ditem_def dget_def split: pyval.splits option.splits)

lemma fetch_pages_stop:
  "map (page_movies api) ps = map Some pages \<Longrightarrow> list_all well_formed (concat pages) \<Longrightarrow>
   api p = Inl e \<Longrightarrow> p \<noteq> 1 \<Longrightarrow>
   fetch_pages str_of api seen acc (ps @ p # rest)
     = Inr (acc @ map (element_of str_of) (fresh seen (concat pages)))"
proof (induction ps arbitrary: seen acc pages)
  case Nil
  then show ?case by (simp add: try_page_def)
next
  case (Cons q ps)
  from Cons.prems(1) obtain ms pages' where pages: "pages = ms # pages'"
    and pm: "page_movies api q = Some ms" and rest: "map (page_movies api) ps = map Some pages'"
    by (cases pages) auto
  from Cons.prems(2) pages have wf: "list_all well_formed ms"
    and wf': "list_all well_formed (concat pages')" by simp_all
  from pm have tp: "try_page str_of api seen q = page_loop str_of seen ms"
    by (auto simp: page_movies_def try_page_def split: sum.splits pyval.splits option.splits)
  from page_loop_well_formed [OF wf, of str_of seen] obtain seen' where
    pl: "page_loop str_of seen ms = (seen', map (element_of str_of) (fresh seen ms), None)"
    and s: "set seen' = set seen \<union> keys_of ms" by blast
  from Cons.IH [OF rest wf' Cons.prems(3,4), of seen' "acc @ map (element_of str_of) (fresh seen ms)"]
    fresh_append [OF s, of "concat pages'"]
  show ?case by (simp add: tp pl pages)
qed

lemma fresh_subset: "set (fresh seen ms) \<subseteq> set ms"
proof (induction ms arbitrary: seen)
  case Nil
  then show ?case by simp
next
  case (Cons m ms)
  then show ?case by (fastforce split: option.splits if_splits)
qed

lemma list_all2_map_Some:
  "map f xs = map Some ys \<Longrightarrow> list_all2 (\<lambda>x y. f x = Some y) xs ys"
  by (induction xs arbitrary: ys) auto

text \<open>
  Claim C7. Let the first \<open>n\<close> pages be fetched and hold movies from which a record can
  be built, and let the loop end there (\<open>n\<close> is \<^verbatim>\<open>max_pages\<close>, or the request for page
  \<open>n + 1\<close> fails). Then \<^const>\<open>fetch_movies\<close> returns the records built from the first
  occurrence of each identifier in page order: one record for each identifier, in the
  order of the first occurrences, and each from the first movie that has its
  identifier; the later movies with that identifier are dropped.
\<close>

theorem fetch_movies_first_occurrences:
  assumes n: "n \<le> max_pages"
    and pages: "map (page_movies api) [1..n] = map Some pages"
    and stop: "n = max_pages \<or> (1 \<le> n \<and> (\<exists>e. api (n + 1) = Inl e))"
    and wf: "list_all well_formed (concat pages)"
    and ks: "map id_key (concat pages) = map Some ks"
  shows "fetch_movies str_of api max_pages
           = Inr (map (element_of str_of) (fresh [] (concat pages)))
     \<and> map id_key (fresh [] (concat pages)) = map Some (rev (remdups (rev ks)))
     \<and> mapM movie_key (map (element_of str_of) (fresh [] (concat pages)))
           = Inr (rev (remdups (rev ks)))
     \<and> (\<forall>movie. movie \<in> set (fresh [] (concat pages))
           \<longrightarrow> find (\<lambda>mv. id_key mv = id_key movie) (concat pages) = Some movie)"
proof -
  let ?fr = "fresh [] (concat pages)"
  have f: "fetch_movies str_of api max_pages = Inr (map (element_of str_of) ?fr)"
  proof (cases "n = max_pages")
    case True
    with fetch_pages_well_formed [OF pages wf, of str_of "[]" "[]"] show ?thesis
      by (simp add: fetch_movies_def)
  next
    case False
    with stop obtain e where n1: "1 \<le> n" and e: "api (n + 1) = Inl e" by blast
    from False n have lt: "n < max_pages" by simp
    have "[1..max_pages] = [1..n] @ [n + 1..max_pages]"
      using n1 n by (intro upto_split2) simp_all
    also have "[n + 1..max_pages] = (n + 1) # [n + 1 + 1..max_pages]"
      using lt by (simp add: upto_rec1)
    finally have sp: "[1..max_pages] = [1..n] @ (n + 1) # [n + 1 + 1..max_pages]" .
    from n1 have ne: "n + 1 \<noteq> 1" by simp
    from fetch_pages_stop [OF pages wf e ne, of str_of "[]" "[]"] show ?thesis
      by (simp only: fetch_movies_def sp append_Nil)
  qed
  have k: "map id_key ?fr = map Some (rev (remdups (rev ks)))"
    using id_keys_fresh [OF ks, of "[]"] by (simp add: firsts_Nil)
  have "list_all2 (\<lambda>r k. movie_key r = Inr k) (map (element_of str_of) ?fr) (rev (remdups (rev ks)))"
    unfolding list_all2_map1
  proof (rule list.rel_mono_strong [OF list_all2_map_Some [OF k]])
    fix movie k
    assume "movie \<in> set ?fr" and idk: "id_key movie = Some k"
    with fresh_subset [of "[]" "concat pages"] wf have "well_formed movie"
      by (auto simp: list_all_iff)
    then show "movie_key (element_of str_of movie) = Inr k"
      using idk by (rule movie_key_element_of)
  qed
  then have mk: "mapM movie_key (map (element_of str_of) ?fr) = Inr (rev (remdups (rev ks)))"
    by (rule list_all2_imp_mapM)
  have fi: "\<forall>movie. movie \<in> set ?fr
           \<longrightarrow> find (\<lambda>mv. id_key mv = id_key movie) (concat pages) = Some movie"
    using fresh_first by blast
  from f k mk fi show ?thesis by (intro conjI)
qed

theorem fetch_movies_first_occurrences_witness:
  "(2 :: int) \<le> 5
   \<and> map (page_movies example_api) [1..2] = map Some [example_page1, example_page2]
   \<and> (\<exists>e. example_api (2 + 1) = Inl e)
   \<and> list_all well_formed (concat [example_page1, example_page2])
   \<and> map id_key (concat [example_page1, example_page2])
         = map Some [KNum 1, KNum 2, KNum 1, KNum 2, KNum 3]
   \<and> fetch_movies (\<lambda>v. ''?'') example_api 5 = Inr example_listings
   \<and> fresh [] (concat [example_page1, example_page2])
         = [example_page1 ! 0, example_page1 ! 1, example_page2 ! 1]
   \<and> mapM movie_key example_listings = Inr [KNum 1, KNum 2, KNum 3]"
proof -
  let ?pages = "[example_page1, example_page2]"
  have h1: "(2 :: int) \<le> 5" by simp
  have h2: "map (page_movies example_api) [1..2] = map Some ?pages"
    by code_simp
  have e: "example_api (2 + 1) = Inl ApiError"
    by (simp add: example_api_def)
  then have h3: "(2 :: int) = 5 \<or> (1 \<le> (2 :: int) \<and> (\<exists>e. example_api (2 + 1) = Inl e))"
    by simp
  have h4: "list_all well_formed (concat ?pages)"
    by code_simp
  have h5: "map id_key (concat ?pages) = map Some [KNum 1, KNum 2, KNum 1, KNum 2, KNum 3]"
    by code_simp
  have fr: "fresh [] (concat ?pages) = [example_page1 ! 0, example_page1 ! 1, example_page2 ! 1]"
    by code_simp
  have el: "map (element_of (\<lambda>v. ''?'')) (fresh [] (concat ?pages)) = example_listings"
    by code_simp
  have rr: "rev (remdups (rev [KNum 1, KNum 2, KNum 1, KNum 2, KNum 3])) = [KNum 1, KNum 2, KNum 3]"
    by simp
  note c = fetch_movies_first_occurrences [OF h1 h2 h3 h4 h5, of "\<lambda>v. ''?''", unfolded el rr]
  from c have f: "fetch_movies (\<lambda>v. ''?'') example_api 5 = Inr example_listings"
    by (elim conjE)
  from c have mk: "mapM movie_key example_listings = Inr [KNum 1, KNum 2, KNum 3]"
    by (elim conjE)
  from e have e': "\<exists>e. example_api (2 + 1) = Inl e" by blast
  from h1 h2 e' h4 h5 f fr mk show ?thesis by (intro conjI)
qed

section \<open>The reported destination and the key written\<close>

lemma lambda_handler_success:
  assumes "fst (lambda_handler sv cfg store) = Response 200 (Success n dest)"
  shows "dest = destination cfg
     \<and> (\<exists>cleaned. n = length cleaned
          \<and> upload_to_s3 sv cfg store cleaned = Inr (snd (lambda_handler sv cfg store)))"
  using assms
  by (auto simp: lambda_handler_def split: sum.splits if_splits)

lemma upload_to_s3_Inr:
  "upload_to_s3 sv cfg store cleaned = Inr store' \<Longrightarrow>
   store' = store((S3_BUCKET_NAME cfg, file_key sv) \<mapsto>
              (if cleaned = [] then placeholder_csv else csv_text sv cleaned))"
  by (auto simp: upload_to_s3_def Let_def split: if_splits)

text \<open>
  Claim C10, as amended. In a successful run the \<^verbatim>\<open>destination\<close> of the payload is
  \<^verbatim>\<open>s3://<bucket>/<S3_FILE_NAME>\<close>, built from the configured file name, while the object
  is stored under the dated key \<^verbatim>\<open>daily_outputs/movies_data_<date>.csv\<close> of the bucket. The
  reported destination names the stored object exactly when \<^verbatim>\<open>S3_FILE_NAME\<close> is
  configured to be the dated key of the day, so never with the default file name.
\<close>

theorem lambda_handler_destination:
  assumes "fst (lambda_handler sv cfg store) = Response 200 (Success n dest)"
  shows "dest = ''s3://'' @ S3_BUCKET_NAME cfg @ ''/'' @ S3_FILE_NAME cfg
     \<and> (\<exists>cleaned. n = length cleaned
          \<and> snd (lambda_handler sv cfg store) =
              store((S3_BUCKET_NAME cfg, ''daily_outputs/movies_data_'' @ today sv @ ''.csv'') \<mapsto>
                (if cleaned = [] then placeholder_csv else csv_text sv cleaned)))
     \<and> ((dest = ''s3://'' @ S3_BUCKET_NAME cfg @ ''/'' @ ''daily_outputs/movies_data_'' @ today sv @ ''.csv'')
          = (S3_FILE_NAME cfg = ''daily_outputs/movies_data_'' @ today sv @ ''.csv''))
     \<and> (S3_FILE_NAME cfg = S3_FILE_NAME default_config \<longrightarrow>
          dest \<noteq> ''s3://'' @ S3_BUCKET_NAME cfg @ ''/'' @ ''daily_outputs/movies_data_'' @ today sv @ ''.csv'')"
proof -
  from lambda_handler_success [OF assms] obtain cleaned where d: "dest = destination cfg"
    and n: "n = length cleaned"
    and u: "upload_to_s3 sv cfg store cleaned = Inr (snd (lambda_handler sv cfg store))"
    by blast
  from upload_to_s3_Inr [OF u]
  have s: "snd (lambda_handler sv cfg store) =
              store((S3_BUCKET_NAME cfg, ''daily_outputs/movies_data_'' @ today sv @ ''.csv'') \<mapsto>
                (if cleaned = [] then placeholder_csv else csv_text sv cleaned))"
    by (simp add: file_key_def)
  have 1: "dest = ''s3://'' @ S3_BUCKET_NAME cfg @ ''/'' @ S3_FILE_NAME cfg"
    by (simp add: d destination_def)
  have 3: "(dest = ''s3://'' @ S3_BUCKET_NAME cfg @ ''/'' @ ''daily_outputs/movies_data_'' @ today sv @ ''.csv'')
          = (S3_FILE_NAME cfg = ''daily_outputs/movies_data_'' @ today sv @ ''.csv'')"
    by (simp add: 1)
  have 4: "S3_FILE_NAME cfg = S3_FILE_NAME default_config \<longrightarrow>
          dest \<noteq> ''s3://'' @ S3_BUCKET_NAME cfg @ ''/'' @ ''daily_outputs/movies_data_'' @ today sv @ ''.csv''"
    by (simp add: 1 default_config_def)
  from n s have "\<exists>cleaned. n = length cleaned
          \<and> snd (lambda_handler sv cfg store) =
              store((S3_BUCKET_NAME cfg, ''daily_outputs/movies_data_'' @ today sv @ ''.csv'') \<mapsto>
                (if cleaned = [] then placeholder_csv else csv_text sv cleaned))"
    by (intro exI [of _ cleaned] conjI)
  with 1 3 4 show ?thesis by (intro conjI)
qed

text \<open>
  The claim as stated has the reported destination never be the place the object was
  written to. That fails for a configuration whose \<^verbatim>\<open>S3_FILE_NAME\<close> is the dated key of
  the day: the run below succeeds, stores the object under
  \<^verbatim>\<open>daily_outputs/movies_data_2026-11-03.csv\<close> of the bucket and reports
  \<^verbatim>\<open>s3://2025tmdbmoviedata/daily_outputs/movies_data_2026-11-03.csv\<close>, which is that
  object.
\<close>

theorem lambda_handler_dated_name_counterexample:
  "fst (lambda_handler example_services
          \<lparr>S3_BUCKET_NAME = ''2025tmdbmoviedata'',
           S3_FILE_NAME = ''daily_outputs/movies_data_2026-11-03.csv'',
           MAX_PAGES = 5, MAX_DETAILS = 50, MAX_WORKERS = 5\<rparr> Map.empty)
     = Response 200
         (Success 3 ''s3://2025tmdbmoviedata/daily_outputs/movies_data_2026-11-03.csv'')
   \<and> snd (lambda_handler example_services
          \<lparr>S3_BUCKET_NAME = ''2025tmdbmoviedata'',
           S3_FILE_NAME = ''daily_outputs/movies_data_2026-11-03.csv'',
           MAX_PAGES = 5, MAX_DETAILS = 50, MAX_WORKERS = 5\<rparr> Map.empty)
       (''2025tmdbmoviedata'', ''daily_outputs/movies_data_2026-11-03.csv'') = Some ''rows''
   \<and> ''s3://2025tmdbmoviedata/daily_outputs/movies_data_2026-11-03.csv''
       = ''s3://'' @ ''2025tmdbmoviedata'' @ ''/'' @ ''daily_outputs/movies_data_2026-11-03.csv''"
proof -
  have e: "fst (lambda_handler example_services
          \<lparr>S3_BUCKET_NAME = ''2025tmdbmoviedata'',
           S3_FILE_NAME = ''daily_outputs/movies_data_2026-11-03.csv'',
           MAX_PAGES = 5, MAX_DETAILS = 50, MAX_WORKERS = 5\<rparr> Map.empty)
     = Response 200
         (Success 3 ''s3://2025tmdbmoviedata/daily_outputs/movies_data_2026-11-03.csv'')"
    by code_simp
  have w: "snd (lambda_handler example_services
          \<lparr>S3_BUCKET_NAME = ''2025tmdbmoviedata'',
           S3_FILE_NAME = ''daily_outputs/movies_data_2026-11-03.csv'',
           MAX_PAGES = 5, MAX_DETAILS = 50, MAX_WORKERS = 5\<rparr> Map.empty)
       (''2025tmdbmoviedata'', ''daily_outputs/movies_data_2026-11-03.csv'') = Some ''rows''"
    by code_simp
  have u: "''s3://2025tmdbmoviedata/daily_outputs/movies_data_2026-11-03.csv''
       = ''s3://'' @ ''2025tmdbmoviedata'' @ ''/'' @ ''daily_outputs/movies_data_2026-11-03.csv''"
    by simp
  from e w u show ?thesis by (intro conjI)
qed

theorem lambda_handler_destination_witness:
  "fst (lambda_handler example_services default_config Map.empty)
     = Response 200 (Success 3 ''s3://2025tmdbmoviedata/movies_data_enriched.csv'')
   \<and> snd (lambda_handler example_services default_config Map.empty)
       (''2025tmdbmoviedata'', ''daily_outputs/movies_data_2026-11-03.csv'') = Some ''rows''
   \<and> snd (lambda_handler example_services default_config Map.empty)
       (''2025tmdbmoviedata'', ''movies_data_enriched.csv'') = None
   \<and> ((''s3://2025tmdbmoviedata/movies_data_enriched.csv''
        = ''s3://'' @ S3_BUCKET_NAME default_config @ ''/'' @ ''daily_outputs/movies_data_''
            @ today example_services @ ''.csv'')
       = (S3_FILE_NAME default_config
            = ''daily_outputs/movies_data_'' @ today example_services @ ''.csv''))
   \<and> S3_FILE_NAME default_config
        \<noteq> ''daily_outputs/movies_data_'' @ today example_services @ ''.csv''"
proof -
  have e: "fst (lambda_handler example_services default_config Map.empty)
     = Response 200 (Success 3 ''s3://2025tmdbmoviedata/movies_data_enriched.csv'')"
    by code_simp
  have w: "snd (lambda_handler example_services default_config Map.empty)
       (''2025tmdbmoviedata'', ''daily_outputs/movies_data_2026-11-03.csv'') = Some ''rows''"
    by code_simp
  have o: "snd (lambda_handler example_services default_config Map.empty)
       (''2025tmdbmoviedata'', ''movies_data_enriched.csv'') = None"
    by code_simp
  from lambda_handler_destination [OF e]
  have d: "(''s3://2025tmdbmoviedata/movies_data_enriched.csv''
        = ''s3://'' @ S3_BUCKET_NAME default_config @ ''/'' @ ''daily_outputs/movies_data_''
            @ today example_services @ ''.csv'')
       = (S3_FILE_NAME default_config
            = ''daily_outputs/movies_data_'' @ today example_services @ ''.csv'')"
    by (elim conjE)
  have n: "S3_FILE_NAME default_config
        \<noteq> ''daily_outputs/movies_data_'' @ today example_services @ ''.csv''"
    by (simp add: default_config_def)
  from e w o d n show ?thesis by (intro conjI)
qed

end
